theory Spec2Isabelle
  imports Main "HOL-Library.Word"
begin

unbundle bit_operations_syntax

section \<open>Atomic wait / notify\<close>

text \<open>
  A shallow embedding of the implementation of atomic wait, notify-one and notify-all
  (\<^verbatim>\<open>src/unnamed/part_003\<close>) and of the wait context and phase constants of its header
  (\<^verbatim>\<open>src/unnamed/part_000\<close>). Names are the source's, without the leading underscores
  that an Isabelle name cannot start with.
\<close>

subsection \<open>Machine types and constants\<close>

type_synonym DWORD = "32 word"
type_synonym ULONGLONG = "64 word"
type_synonym uintptr_t = "64 word"

text \<open>From \<^verbatim>\<open>Windows.h\<close>.\<close>

definition INFINITE :: DWORD where
  "INFINITE = 0xFFFFFFFF"

definition ERROR_TIMEOUT :: DWORD where
  "ERROR_TIMEOUT = 1460"

text \<open>The enumerators of \<^verbatim>\<open>_Atomic_spin_phase\<close> that the implementation compares with.\<close>

definition Atomic_wait_phase_wait_locked :: DWORD where
  "Atomic_wait_phase_wait_locked = 0x00000001"

definition Atomic_wait_phase_wait_none :: DWORD where
  "Atomic_wait_phase_wait_none = 0x00000002"

definition Atomic_wait_phase_wait_counter :: DWORD where
  "Atomic_wait_phase_wait_counter = 0x00000004"

text \<open>\<^verbatim>\<open>struct _Atomic_wait_context_t\<close>.\<close>

record Atomic_wait_context_t =
  Wait_phase_and_spin_count :: DWORD
  Deadline :: ULONGLONG
  Counter :: ULONGLONG

text \<open>
  What the build fixes. \<^verbatim>\<open>_DEBUG\<close> and
  \<^verbatim>\<open>_ATOMIC_WAIT_ON_ADDRESS_STATICALLY_AVAILABLE\<close> are the preprocessor symbols the
  implementation branches on. The constant \<^verbatim>\<open>_Atomic_wait_no_timeout\<close> is declared in a
  header that is not among the sources, so it is a parameter here: every statement
  below holds for each value of it.
\<close>

record build =
  DEBUG :: bool
  ATOMIC_WAIT_ON_ADDRESS_STATICALLY_AVAILABLE :: bool
  Atomic_wait_no_timeout :: ULONGLONG

text \<open>
  What the operating system answers during one call of the interface:
  the tick count, the outcome of the one blocking primitive the call may reach
  (\<^verbatim>\<open>SleepConditionVariableSRW\<close> or \<^verbatim>\<open>WaitOnAddress\<close>: its \<^verbatim>\<open>BOOL\<close> and the
  \<^verbatim>\<open>GetLastError()\<close> that follows a failure), the module and symbol lookups, and which
  attempts of \<^verbatim>\<open>compare_exchange_weak\<close> fail spuriously.
\<close>

record os =
  GetTickCount64 :: ULONGLONG
  blocking_succeeds :: bool
  GetLastError :: DWORD
  GetModuleHandleW :: "string \<Rightarrow> uintptr_t"
  GetProcAddress :: "uintptr_t \<Rightarrow> string \<Rightarrow> uintptr_t"
  spurious_failures :: "bool list"

subsection \<open>Deadlines\<close>

definition Ten_days :: DWORD where
  "Ten_days = 864000000"

definition Get_remaining_wait_milliseconds :: "build \<Rightarrow> os \<Rightarrow> Atomic_wait_context_t \<Rightarrow> DWORD" where
  "Get_remaining_wait_milliseconds b sys Wait_context =
     (let deadline = Deadline Wait_context in
      if deadline = Atomic_wait_no_timeout b then INFINITE
      else
        let current_time = GetTickCount64 sys in
        if current_time \<ge> deadline then 0
        else
          let remaining = deadline - current_time in
          if remaining > ucast Ten_days then Ten_days
          else ucast remaining)"

definition std_atomic_wait_get_deadline ::
  "build \<Rightarrow> os \<Rightarrow> Atomic_wait_context_t \<Rightarrow> ULONGLONG \<Rightarrow> Atomic_wait_context_t" where
  "std_atomic_wait_get_deadline b sys Wait_context Timeout =
     (if Timeout = Atomic_wait_no_timeout b
      then Wait_context\<lparr>Deadline := Atomic_wait_no_timeout b\<rparr>
      else Wait_context\<lparr>Deadline := GetTickCount64 sys + Timeout\<rparr>)"

subsection \<open>The wait table\<close>

text \<open>
  \<^verbatim>\<open>struct _Wait_table_entry\<close>. The source's \<^verbatim>\<open>_Counter\<close> is \<open>Entry_Counter\<close> here (the
  wait context has a \<^verbatim>\<open>_Counter\<close> of its own). \<open>Entry_Lock\<close> is the state of \<^verbatim>\<open>_Lock\<close> as
  the calling thread sees it: whether this thread holds the lock exclusively. The
  condition variable \<^verbatim>\<open>_Condition\<close> has no state of the caller's own; the calls on it
  are recorded in the list of operating system calls.
\<close>

record Wait_table_entry =
  Entry_Counter :: ULONGLONG
  Entry_Lock :: bool

definition Wait_table_size_power :: nat where
  "Wait_table_size_power = 8"

definition Wait_table_size :: uintptr_t where
  "Wait_table_size = push_bit Wait_table_size_power 1"

definition Wait_table_index_mask :: uintptr_t where
  "Wait_table_index_mask = Wait_table_size - 1"

text \<open>
  \<^verbatim>\<open>_Atomic_wait_table_entry\<close> returns a reference into the static table; the model
  returns the index of that entry.
\<close>

definition Atomic_wait_table_entry :: "uintptr_t \<Rightarrow> uintptr_t" where
  "Atomic_wait_table_entry Storage =
     (let index = Storage;
          index = index XOR drop_bit (Wait_table_size_power * 2) index;
          index = index XOR drop_bit Wait_table_size_power index
      in index AND Wait_table_index_mask)"

subsection \<open>The feature level and the table of wait functions\<close>

text \<open>
  Modelled from the spec: the declaration of \<^verbatim>\<open>enum class __std_atomic_api_level\<close> is in a
  header that is not among the sources. Its four enumerators are the ones the
  implementation names; their order is the spec's
  \<^verbatim>\<open>Unset \<rightarrow> Detecting \<rightarrow> {HasMutexFallbackOnly | HasNativeWaitOnAddress}\<close>, which is also the
  order of the \<^verbatim>\<open>case\<close> labels in \<^verbatim>\<open>__std_atomic_set_api_level\<close>.
\<close>

datatype std_atomic_api_level = not_set | detecting | has_srwlock | has_wait_on_address

fun api_level_value :: "std_atomic_api_level \<Rightarrow> nat" where
  "api_level_value not_set = 0"
| "api_level_value detecting = 1"
| "api_level_value has_srwlock = 2"
| "api_level_value has_wait_on_address = 3"

text \<open>\<^verbatim>\<open>struct _Wait_functions_table\<close>; a function pointer is an address, \<open>0\<close> for \<^verbatim>\<open>nullptr\<close>.\<close>

record Wait_functions_table =
  Pfn_WaitOnAddress :: uintptr_t
  Pfn_WakeByAddressSingle :: uintptr_t
  Pfn_WakeByAddressAll :: uintptr_t
  Api_level :: std_atomic_api_level

text \<open>
  \<^verbatim>\<open>compare_exchange_weak\<close> on an atomic object holding \<open>obj\<close>: it gives the result, the
  object's new value and the new value of \<open>expected\<close>. It may fail spuriously; a failed
  exchange loads the object's value into \<open>expected\<close>.
\<close>

definition compare_exchange_weak :: "bool \<Rightarrow> 'a \<Rightarrow> 'a \<Rightarrow> 'a \<Rightarrow> bool \<times> 'a \<times> 'a" where
  "compare_exchange_weak spurious obj expected desired =
     (if obj = expected \<and> \<not> spurious then (True, desired, expected) else (False, obj, obj))"

text \<open>
  The loop of lines 139--143 and of lines 150--154, run by one thread with no other
  thread in between:
  \<^verbatim>\<open>while (!_Api_level.compare_exchange_weak(_Local, desired)) { if (_Local > __detecting) return; }\<close>
  The result says whether the loop was left because the exchange succeeded (\<open>True\<close>)
  or by the \<^verbatim>\<open>return\<close> in its body (\<open>False\<close>), and gives the level stored. The list says
  which attempts fail spuriously; attempts beyond its end do not.
\<close>

function exchange_loop ::
  "bool list \<Rightarrow> std_atomic_api_level \<Rightarrow> std_atomic_api_level \<Rightarrow> std_atomic_api_level
    \<Rightarrow> bool \<times> std_atomic_api_level" where
  "exchange_loop fails desired obj Local =
     (let (exchanged, obj', Local') =
            compare_exchange_weak (case fails of [] \<Rightarrow> False | f # _ \<Rightarrow> f) obj Local desired
      in if exchanged then (True, obj')
         else if api_level_value Local' > api_level_value detecting then (False, obj')
         else exchange_loop (tl fails) desired obj' Local')"
  by pat_completeness auto
termination
  by (relation "measure (\<lambda>(fails, desired, obj, Local). 2 * length fails + (if obj = Local then 0 else 1))")
     (auto simp: compare_exchange_weak_def split: if_splits list.splits)

declare exchange_loop.simps [simp del]

definition Force_wait_functions_srwlock_only :: "os \<Rightarrow> Wait_functions_table \<Rightarrow> Wait_functions_table" where
  "Force_wait_functions_srwlock_only sys Wait_functions =
     (let Local = Api_level Wait_functions in
      if api_level_value Local \<le> api_level_value detecting
      then Wait_functions\<lparr>Api_level :=
             snd (exchange_loop (spurious_failures sys) has_srwlock (Api_level Wait_functions) Local)\<rparr>
      else Wait_functions)"

text \<open>Lines 156--162: the module handle and the three symbols looked up.\<close>

definition probe :: "os \<Rightarrow> uintptr_t \<times> uintptr_t \<times> uintptr_t" where
  "probe sys =
     (let Sync_module = GetModuleHandleW sys ''api-ms-win-core-synch-l1-2-0.dll'';
          Wait_on_address = GetProcAddress sys Sync_module ''WaitOnAddress'';
          Wake_by_address_single = GetProcAddress sys Sync_module ''WakeByAddressSingle'';
          Wake_by_address_all = GetProcAddress sys Sync_module ''WakeByAddressAll''
      in (Wait_on_address, Wake_by_address_single, Wake_by_address_all))"

text \<open>Lines 163--171: the stores that publish what the probe found.\<close>

definition publish ::
  "uintptr_t \<times> uintptr_t \<times> uintptr_t \<Rightarrow> Wait_functions_table \<Rightarrow> Wait_functions_table" where
  "publish found Wait_functions =
     (let (Wait_on_address, Wake_by_address_single, Wake_by_address_all) = found in
      if Wait_on_address \<noteq> 0 \<and> Wake_by_address_single \<noteq> 0 \<and> Wake_by_address_all \<noteq> 0
      then Wait_functions\<lparr>Pfn_WaitOnAddress := Wait_on_address,
             Pfn_WakeByAddressSingle := Wake_by_address_single,
             Pfn_WakeByAddressAll := Wake_by_address_all,
             Api_level := has_wait_on_address\<rparr>
      else Wait_functions\<lparr>Api_level := has_srwlock\<rparr>)"

text \<open>
  \<^verbatim>\<open>_Get_wait_functions\<close> returns a reference to the one table; the model returns the
  table as the call leaves it.
\<close>

definition Get_wait_functions :: "os \<Rightarrow> Wait_functions_table \<Rightarrow> Wait_functions_table" where
  "Get_wait_functions sys Wait_functions =
     (let Local = Api_level Wait_functions in
      if api_level_value Local \<le> api_level_value detecting
      then
        let (exchanged, level) =
              exchange_loop (spurious_failures sys) detecting (Api_level Wait_functions) Local
        in if exchanged then publish (probe sys) (Wait_functions\<lparr>Api_level := level\<rparr>)
           else Wait_functions\<lparr>Api_level := level\<rparr>
      else Wait_functions)"

definition std_atomic_set_api_level ::
  "build \<Rightarrow> os \<Rightarrow> std_atomic_api_level \<Rightarrow> Wait_functions_table
    \<Rightarrow> std_atomic_api_level \<times> Wait_functions_table" where
  "std_atomic_set_api_level b sys Requested_api_level Wait_functions =
     (if ATOMIC_WAIT_ON_ADDRESS_STATICALLY_AVAILABLE b then (has_wait_on_address, Wait_functions)
      else
        let forced =
              (case Requested_api_level of
                 not_set \<Rightarrow> Force_wait_functions_srwlock_only sys Wait_functions
               | detecting \<Rightarrow> Force_wait_functions_srwlock_only sys Wait_functions
               | has_srwlock \<Rightarrow> Force_wait_functions_srwlock_only sys Wait_functions
               | has_wait_on_address \<Rightarrow> Wait_functions);
            got = Get_wait_functions sys forced
        in (Api_level got, got))"

subsection \<open>The process as one thread sees it\<close>

text \<open>
  An address handed to \<^verbatim>\<open>WaitOnAddress\<close> or to a wake function: the caller's
  \<^verbatim>\<open>_Storage\<close>, or the counter of the wait table entry with the given index.
\<close>

datatype address = Storage_address uintptr_t | Entry_Counter_address uintptr_t

text \<open>
  The calls into the operating system that synchronise with other threads, in the
  order made. Locks and condition variables are named by the index of their entry.
\<close>

datatype os_call =
    Call_AcquireSRWLockExclusive uintptr_t
  | Call_ReleaseSRWLockExclusive uintptr_t
  | Call_SleepConditionVariableSRW uintptr_t DWORD
  | Call_WakeAllConditionVariable uintptr_t
  | Call_WaitOnAddress address DWORD
  | Call_WakeByAddressSingle address
  | Call_WakeByAddressAll address

record world =
  wait_table :: "uintptr_t \<Rightarrow> Wait_table_entry"
  Wait_functions :: Wait_functions_table
  os_calls :: "os_call list"

text \<open>
  How a call ends when it does not return: \<^verbatim>\<open>abort()\<close>; an exclusive acquire of a
  lock the thread already holds, which never returns; a release of, or a sleep on, a
  lock the thread does not hold; a call through a null function pointer.
\<close>

datatype failure = Aborted | Deadlocked | Lock_not_held | Null_function_pointer

definition and_then :: "failure + 'a \<Rightarrow> ('a \<Rightarrow> failure + 'b) \<Rightarrow> failure + 'b" where
  "and_then r f = (case r of Inl e \<Rightarrow> Inl e | Inr x \<Rightarrow> f x)"

definition AcquireSRWLockExclusive :: "uintptr_t \<Rightarrow> world \<Rightarrow> failure + world" where
  "AcquireSRWLockExclusive i w =
     (if Entry_Lock (wait_table w i) then Inl Deadlocked
      else Inr (w\<lparr>wait_table := (wait_table w)(i := (wait_table w i)\<lparr>Entry_Lock := True\<rparr>),
                  os_calls := os_calls w @ [Call_AcquireSRWLockExclusive i]\<rparr>))"

definition ReleaseSRWLockExclusive :: "uintptr_t \<Rightarrow> world \<Rightarrow> failure + world" where
  "ReleaseSRWLockExclusive i w =
     (if \<not> Entry_Lock (wait_table w i) then Inl Lock_not_held
      else Inr (w\<lparr>wait_table := (wait_table w)(i := (wait_table w i)\<lparr>Entry_Lock := False\<rparr>),
                  os_calls := os_calls w @ [Call_ReleaseSRWLockExclusive i]\<rparr>))"

text \<open>
  \<^verbatim>\<open>SleepConditionVariableSRW\<close> releases the lock while it sleeps and holds it again
  when it returns, whether it was woken or not.
\<close>

definition SleepConditionVariableSRW :: "os \<Rightarrow> uintptr_t \<Rightarrow> DWORD \<Rightarrow> world \<Rightarrow> failure + (bool \<times> world)" where
  "SleepConditionVariableSRW sys i dwMilliseconds w =
     (if \<not> Entry_Lock (wait_table w i) then Inl Lock_not_held
      else Inr (blocking_succeeds sys,
                w\<lparr>os_calls := os_calls w @ [Call_SleepConditionVariableSRW i dwMilliseconds]\<rparr>))"

definition WakeAllConditionVariable :: "uintptr_t \<Rightarrow> world \<Rightarrow> world" where
  "WakeAllConditionVariable i w = w\<lparr>os_calls := os_calls w @ [Call_WakeAllConditionVariable i]\<rparr>"

text \<open>
  \<^verbatim>\<open>WaitOnAddress\<close>: the comparand and the size do not change what the model does (the
  outcome is the operating system's answer), so the call is recorded by its address
  and its timeout.
\<close>

definition WaitOnAddress :: "os \<Rightarrow> address \<Rightarrow> DWORD \<Rightarrow> world \<Rightarrow> bool \<times> world" where
  "WaitOnAddress sys Address dwMilliseconds w =
     (blocking_succeeds sys, w\<lparr>os_calls := os_calls w @ [Call_WaitOnAddress Address dwMilliseconds]\<rparr>)"

definition WakeByAddressSingle :: "address \<Rightarrow> world \<Rightarrow> world" where
  "WakeByAddressSingle Address w = w\<lparr>os_calls := os_calls w @ [Call_WakeByAddressSingle Address]\<rparr>"

definition WakeByAddressAll :: "address \<Rightarrow> world \<Rightarrow> world" where
  "WakeByAddressAll Address w = w\<lparr>os_calls := os_calls w @ [Call_WakeByAddressAll Address]\<rparr>"

subsection \<open>The fallback on a lock and a condition variable\<close>

text \<open>\<^verbatim>\<open>_Assume_timeout\<close>, called after a blocking primitive has failed.\<close>

definition Assume_timeout :: "build \<Rightarrow> os \<Rightarrow> failure + unit" where
  "Assume_timeout b sys =
     (if DEBUG b then (if GetLastError sys \<noteq> ERROR_TIMEOUT then Inl Aborted else Inr ())
      else Inr ())"

definition Atomic_wait_fallback ::
  "build \<Rightarrow> os \<Rightarrow> uintptr_t \<Rightarrow> Atomic_wait_context_t \<Rightarrow> world
    \<Rightarrow> failure + (bool \<times> Atomic_wait_context_t \<times> world)" where
  "Atomic_wait_fallback b sys Storage Wait_context w =
     (let Remaining_waiting_time = Get_remaining_wait_milliseconds b sys Wait_context in
      if Remaining_waiting_time = 0 then Inr (False, Wait_context, w)
      else
        let Entry = Atomic_wait_table_entry Storage in
        if Wait_phase_and_spin_count Wait_context = Atomic_wait_phase_wait_none then
          and_then (AcquireSRWLockExclusive Entry w) (\<lambda>w.
            Inr (True, Wait_context\<lparr>Wait_phase_and_spin_count := Atomic_wait_phase_wait_locked\<rparr>, w))
        else if Wait_phase_and_spin_count Wait_context = Atomic_wait_phase_wait_locked then
          and_then (SleepConditionVariableSRW sys Entry Remaining_waiting_time w) (\<lambda>(slept, w).
            if \<not> slept then
              and_then (Assume_timeout b sys) (\<lambda>_.
              and_then (ReleaseSRWLockExclusive Entry w) (\<lambda>w.
                Inr (False, Wait_context\<lparr>Wait_phase_and_spin_count := Atomic_wait_phase_wait_none\<rparr>, w)))
            else Inr (True, Wait_context, w))
        else Inl Aborted)"

definition Atomic_unwait_fallback ::
  "uintptr_t \<Rightarrow> Atomic_wait_context_t \<Rightarrow> world \<Rightarrow> failure + (Atomic_wait_context_t \<times> world)" where
  "Atomic_unwait_fallback Storage Wait_context w =
     (if Wait_phase_and_spin_count Wait_context = Atomic_wait_phase_wait_locked then
        let Entry = Atomic_wait_table_entry Storage in
        and_then (ReleaseSRWLockExclusive Entry w) (\<lambda>w.
          Inr (Wait_context\<lparr>Wait_phase_and_spin_count := Atomic_wait_phase_wait_none\<rparr>, w))
      else Inr (Wait_context, w))"

definition Atomic_notify_fallback :: "uintptr_t \<Rightarrow> world \<Rightarrow> failure + world" where
  "Atomic_notify_fallback Storage w =
     (let Entry = Atomic_wait_table_entry Storage in
      and_then (AcquireSRWLockExclusive Entry w) (\<lambda>w.
      and_then (ReleaseSRWLockExclusive Entry w) (\<lambda>w.
        Inr (WakeAllConditionVariable Entry w))))"

subsection \<open>The native wait functions\<close>

definition Have_wait_functions :: "os \<Rightarrow> world \<Rightarrow> bool \<times> world" where
  "Have_wait_functions sys w =
     (let w = w\<lparr>Wait_functions := Get_wait_functions sys (Wait_functions w)\<rparr> in
      (api_level_value (Api_level (Wait_functions w)) \<ge> api_level_value has_wait_on_address, w))"

text \<open>
  \<^verbatim>\<open>__crtWaitOnAddress\<close>, \<^verbatim>\<open>__crtWakeByAddressSingle\<close> and \<^verbatim>\<open>__crtWakeByAddressAll\<close>: macros for
  the functions of the operating system when these are statically available, and
  otherwise calls through the pointers of the table.
\<close>

definition crtWaitOnAddress :: "build \<Rightarrow> os \<Rightarrow> address \<Rightarrow> DWORD \<Rightarrow> world \<Rightarrow> failure + (bool \<times> world)" where
  "crtWaitOnAddress b sys Address dwMilliseconds w =
     (if ATOMIC_WAIT_ON_ADDRESS_STATICALLY_AVAILABLE b then Inr (WaitOnAddress sys Address dwMilliseconds w)
      else
        let w = w\<lparr>Wait_functions := Get_wait_functions sys (Wait_functions w)\<rparr>;
            Wait_on_address = Pfn_WaitOnAddress (Wait_functions w)
        in if Wait_on_address = 0 then Inl Null_function_pointer
           else Inr (WaitOnAddress sys Address dwMilliseconds w))"

definition crtWakeByAddressSingle :: "build \<Rightarrow> os \<Rightarrow> address \<Rightarrow> world \<Rightarrow> failure + world" where
  "crtWakeByAddressSingle b sys Address w =
     (if ATOMIC_WAIT_ON_ADDRESS_STATICALLY_AVAILABLE b then Inr (WakeByAddressSingle Address w)
      else
        let w = w\<lparr>Wait_functions := Get_wait_functions sys (Wait_functions w)\<rparr>;
            Wake_by_address_single = Pfn_WakeByAddressSingle (Wait_functions w)
        in if Wake_by_address_single = 0 then Inl Null_function_pointer
           else Inr (WakeByAddressSingle Address w))"

definition crtWakeByAddressAll :: "build \<Rightarrow> os \<Rightarrow> address \<Rightarrow> world \<Rightarrow> failure + world" where
  "crtWakeByAddressAll b sys Address w =
     (if ATOMIC_WAIT_ON_ADDRESS_STATICALLY_AVAILABLE b then Inr (WakeByAddressAll Address w)
      else
        let w = w\<lparr>Wait_functions := Get_wait_functions sys (Wait_functions w)\<rparr>;
            Wake_by_address_all = Pfn_WakeByAddressAll (Wait_functions w)
        in if Wake_by_address_all = 0 then Inl Null_function_pointer
           else Inr (WakeByAddressAll Address w))"

subsection \<open>The exported functions\<close>

text \<open>
  The guard that opens each of them:
  \<^verbatim>\<open>#if _ATOMIC_WAIT_ON_ADDRESS_STATICALLY_AVAILABLE == 0\<close> \<^verbatim>\<open>if (!_Have_wait_functions())\<close>.
  It says whether the fallback is taken, and gives the process after the detection
  that \<^verbatim>\<open>_Have_wait_functions\<close> may have run.
\<close>

definition fallback_taken :: "build \<Rightarrow> os \<Rightarrow> world \<Rightarrow> bool \<times> world" where
  "fallback_taken b sys w =
     (if ATOMIC_WAIT_ON_ADDRESS_STATICALLY_AVAILABLE b then (False, w)
      else let (have, w) = Have_wait_functions sys w in (\<not> have, w))"

definition std_atomic_wait_direct ::
  "build \<Rightarrow> os \<Rightarrow> uintptr_t \<Rightarrow> uintptr_t \<Rightarrow> nat \<Rightarrow> Atomic_wait_context_t \<Rightarrow> world
    \<Rightarrow> failure + (bool \<times> Atomic_wait_context_t \<times> world)" where
  "std_atomic_wait_direct b sys Storage Comparand Size Wait_context w =
     (let (fallback, w) = fallback_taken b sys w in
      if fallback then Atomic_wait_fallback b sys Storage Wait_context w
      else
        and_then (crtWaitOnAddress b sys (Storage_address Storage)
                    (Get_remaining_wait_milliseconds b sys Wait_context) w) (\<lambda>(waited, w).
          if \<not> waited then
            and_then (Assume_timeout b sys) (\<lambda>_. Inr (False, Wait_context, w))
          else Inr (True, Wait_context, w)))"

definition std_atomic_notify_one_direct :: "build \<Rightarrow> os \<Rightarrow> uintptr_t \<Rightarrow> world \<Rightarrow> failure + world" where
  "std_atomic_notify_one_direct b sys Storage w =
     (let (fallback, w) = fallback_taken b sys w in
      if fallback then Atomic_notify_fallback Storage w
      else crtWakeByAddressSingle b sys (Storage_address Storage) w)"

definition std_atomic_notify_all_direct :: "build \<Rightarrow> os \<Rightarrow> uintptr_t \<Rightarrow> world \<Rightarrow> failure + world" where
  "std_atomic_notify_all_direct b sys Storage w =
     (let (fallback, w) = fallback_taken b sys w in
      if fallback then Atomic_notify_fallback Storage w
      else crtWakeByAddressAll b sys (Storage_address Storage) w)"

definition std_atomic_wait_indirect ::
  "build \<Rightarrow> os \<Rightarrow> uintptr_t \<Rightarrow> Atomic_wait_context_t \<Rightarrow> world
    \<Rightarrow> failure + (bool \<times> Atomic_wait_context_t \<times> world)" where
  "std_atomic_wait_indirect b sys Storage Wait_context w =
     (let (fallback, w) = fallback_taken b sys w in
      if fallback then Atomic_wait_fallback b sys Storage Wait_context w
      else
        let Entry = Atomic_wait_table_entry Storage in
        if Wait_phase_and_spin_count Wait_context = Atomic_wait_phase_wait_none then
          Inr (True,
               Wait_context\<lparr>Counter := Entry_Counter (wait_table w Entry),
                 Wait_phase_and_spin_count := Atomic_wait_phase_wait_counter\<rparr>,
               w)
        else if Wait_phase_and_spin_count Wait_context = Atomic_wait_phase_wait_counter then
          and_then (crtWaitOnAddress b sys (Entry_Counter_address Entry)
                      (Get_remaining_wait_milliseconds b sys Wait_context) w) (\<lambda>(waited, w).
            if \<not> waited then
              and_then (Assume_timeout b sys) (\<lambda>_. Inr (False, Wait_context, w))
            else Inr (True, Wait_context\<lparr>Wait_phase_and_spin_count := Atomic_wait_phase_wait_none\<rparr>, w))
        else Inl Aborted)"

definition std_atomic_notify_all_indirect :: "build \<Rightarrow> os \<Rightarrow> uintptr_t \<Rightarrow> world \<Rightarrow> failure + world" where
  "std_atomic_notify_all_indirect b sys Storage w =
     (let (fallback, w) = fallback_taken b sys w in
      if fallback then Atomic_notify_fallback Storage w
      else
        let Entry = Atomic_wait_table_entry Storage;
            w = w\<lparr>wait_table := (wait_table w)
                  (Entry := (wait_table w Entry)\<lparr>Entry_Counter := Entry_Counter (wait_table w Entry) + 1\<rparr>)\<rparr>
        in crtWakeByAddressAll b sys (Entry_Counter_address Entry) w)"

definition std_atomic_notify_one_indirect :: "build \<Rightarrow> os \<Rightarrow> uintptr_t \<Rightarrow> world \<Rightarrow> failure + world" where
  "std_atomic_notify_one_indirect b sys Storage w = std_atomic_notify_all_indirect b sys Storage w"

definition std_atomic_unwait_direct ::
  "build \<Rightarrow> uintptr_t \<Rightarrow> Atomic_wait_context_t \<Rightarrow> world \<Rightarrow> failure + (Atomic_wait_context_t \<times> world)" where
  "std_atomic_unwait_direct b Storage Wait_context w =
     (if ATOMIC_WAIT_ON_ADDRESS_STATICALLY_AVAILABLE b then Inr (Wait_context, w)
      else Atomic_unwait_fallback Storage Wait_context w)"

definition std_atomic_unwait_indirect ::
  "build \<Rightarrow> uintptr_t \<Rightarrow> Atomic_wait_context_t \<Rightarrow> world \<Rightarrow> failure + (Atomic_wait_context_t \<times> world)" where
  "std_atomic_unwait_indirect b Storage Wait_context w =
     (if ATOMIC_WAIT_ON_ADDRESS_STATICALLY_AVAILABLE b then Inr (Wait_context, w)
      else Atomic_unwait_fallback Storage Wait_context w)"

subsection \<open>Threads racing on the feature level\<close>

text \<open>
  \<^verbatim>\<open>_Get_wait_functions\<close> and \<^verbatim>\<open>_Force_wait_functions_srwlock_only\<close> run by several threads: each
  access to the atomic \<^verbatim>\<open>_Api_level\<close> is one step of one thread, and a schedule says
  which thread steps next. A thread is at the load that opens its function, at the
  \<^verbatim>\<open>compare_exchange_weak\<close> of its loop, at the probe (lines 156--162), at the stores
  that publish what the probe found (lines 163--171), or it has returned.

  The level is one atomic object, so its modifications are in one order for all
  threads. The runs of the model are the executions in which every load reads the
  latest value in that order; each of them is an execution the language allows. The
  stores of the three pointers and the store of the level that follows them are one
  step: no step of the model reads the pointers.
\<close>

datatype program_counter =
    Get_load | Get_exchange | Get_probe | Get_publish
  | Force_load | Force_exchange
  | Returned

text \<open>
  The locals of a thread: \<^verbatim>\<open>_Local\<close>, and the three pointers the probe found. \<open>probes\<close>
  counts how often the thread has run the probe.
\<close>

record thread =
  pc :: program_counter
  Local :: std_atomic_api_level
  found :: "uintptr_t \<times> uintptr_t \<times> uintptr_t"
  probes :: nat

definition thread_step ::
  "os \<Rightarrow> bool \<Rightarrow> Wait_functions_table \<Rightarrow> thread \<Rightarrow> Wait_functions_table \<times> thread" where
  "thread_step sys spurious tbl th =
     (case pc th of
        Get_load \<Rightarrow>
          (let th = th\<lparr>Local := Api_level tbl\<rparr> in
           if api_level_value (Local th) \<le> api_level_value detecting
           then (tbl, th\<lparr>pc := Get_exchange\<rparr>)
           else (tbl, th\<lparr>pc := Returned\<rparr>))
      | Get_exchange \<Rightarrow>
          (let (exchanged, level, Local') =
                 compare_exchange_weak spurious (Api_level tbl) (Local th) detecting;
               tbl = tbl\<lparr>Api_level := level\<rparr>;
               th = th\<lparr>Local := Local'\<rparr>
           in if exchanged then (tbl, th\<lparr>pc := Get_probe\<rparr>)
              else if api_level_value (Local th) > api_level_value detecting
              then (tbl, th\<lparr>pc := Returned\<rparr>)
              else (tbl, th))
      | Get_probe \<Rightarrow>
          (tbl, th\<lparr>found := probe sys, probes := probes th + 1, pc := Get_publish\<rparr>)
      | Get_publish \<Rightarrow>
          (publish (found th) tbl, th\<lparr>pc := Returned\<rparr>)
      | Force_load \<Rightarrow>
          (let th = th\<lparr>Local := Api_level tbl\<rparr> in
           if api_level_value (Local th) \<le> api_level_value detecting
           then (tbl, th\<lparr>pc := Force_exchange\<rparr>)
           else (tbl, th\<lparr>pc := Returned\<rparr>))
      | Force_exchange \<Rightarrow>
          (let (exchanged, level, Local') =
                 compare_exchange_weak spurious (Api_level tbl) (Local th) has_srwlock;
               tbl = tbl\<lparr>Api_level := level\<rparr>;
               th = th\<lparr>Local := Local'\<rparr>
           in if exchanged then (tbl, th\<lparr>pc := Returned\<rparr>)
              else if api_level_value (Local th) > api_level_value detecting
              then (tbl, th\<lparr>pc := Returned\<rparr>)
              else (tbl, th))
      | Returned \<Rightarrow> (tbl, th))"

text \<open>
  The process: the one table and its threads. A step of the schedule names a thread
  and says whether its exchange, if it is at one, fails spuriously.
\<close>

record process =
  shared :: Wait_functions_table
  threads :: "thread list"

definition step :: "os \<Rightarrow> nat \<times> bool \<Rightarrow> process \<Rightarrow> process" where
  "step sys s p =
     (let (i, spurious) = s in
      if i < length (threads p) then
        let (tbl, th) = thread_step sys spurious (shared p) (threads p ! i)
        in p\<lparr>shared := tbl, threads := (threads p)[i := th]\<rparr>
      else p)"

definition run :: "os \<Rightarrow> (nat \<times> bool) list \<Rightarrow> process \<Rightarrow> process" where
  "run sys schedule p = fold (step sys) schedule p"

text \<open>A thread that is about to call one of the two functions.\<close>

definition calls :: "program_counter \<Rightarrow> thread" where
  "calls at = \<lparr>pc = at, Local = not_set, found = (0, 0, 0), probes = 0\<rparr>"

text \<open>The table as the program starts: no pointer, the level not set.\<close>

definition initial_functions :: Wait_functions_table where
  "initial_functions =
     \<lparr>Pfn_WaitOnAddress = 0, Pfn_WakeByAddressSingle = 0, Pfn_WakeByAddressAll = 0,
      Api_level = not_set\<rparr>"

subsection \<open>Notions the properties are stated with\<close>

text \<open>
  The pointers of the table are set before the level \<open>has_wait_on_address\<close> is stored,
  so a table at that level has its three pointers. The table the program starts with
  is such a table, and the stores of lines 163--171 keep it one.
\<close>

definition functions_resolved :: "Wait_functions_table \<Rightarrow> bool" where
  "functions_resolved t =
     (Api_level t = has_wait_on_address \<longrightarrow>
        Pfn_WaitOnAddress t \<noteq> 0 \<and> Pfn_WakeByAddressSingle t \<noteq> 0 \<and> Pfn_WakeByAddressAll t \<noteq> 0)"

text \<open>
  Indirect notifies for one address, one call after the other; the list says of each
  call whether it is \<^verbatim>\<open>__std_atomic_notify_one_indirect\<close> (\<open>True\<close>) or
  \<^verbatim>\<open>__std_atomic_notify_all_indirect\<close>.
\<close>

fun notify_indirect_calls :: "bool list \<Rightarrow> build \<Rightarrow> os \<Rightarrow> uintptr_t \<Rightarrow> world \<Rightarrow> failure + world" where
  "notify_indirect_calls [] b sys Storage w = Inr w"
| "notify_indirect_calls (one # rest) b sys Storage w =
     and_then ((if one then std_atomic_notify_one_indirect else std_atomic_notify_all_indirect)
                 b sys Storage w)
       (notify_indirect_calls rest b sys Storage)"

text \<open>The level that the probe of this operating system leads to.\<close>

definition detected_level :: "os \<Rightarrow> std_atomic_api_level" where
  "detected_level sys = Api_level (publish (probe sys) initial_functions)"

text \<open>
  A thread that is past its loop with \<^verbatim>\<open>_Local\<close> at \<open>level\<close>. A successful exchange leaves
  \<^verbatim>\<open>_Local\<close> as it was, so for \<open>not_set\<close> and \<open>detecting\<close> these are the threads that won
  their exchange from that level; a thread that returned without an exchange has loaded
  a level above \<^verbatim>\<open>__detecting\<close> into \<^verbatim>\<open>_Local\<close>.
\<close>

definition exchanged_from :: "std_atomic_api_level \<Rightarrow> thread \<Rightarrow> bool" where
  "exchanged_from level th =
     ((pc th = Get_probe \<or> pc th = Get_publish \<or> pc th = Returned) \<and> Local th = level)"

text \<open>
  What holds of a thread inside \<^verbatim>\<open>_Get_wait_functions\<close>, given the level stored: it has
  not probed before the probe and has probed once after it; in its loop and after a
  won exchange \<^verbatim>\<open>_Local\<close> is not above \<^verbatim>\<open>__detecting\<close>; after a won exchange the level is
  no longer \<^verbatim>\<open>__not_set\<close>; and once it has returned, the level stored is the detected
  one, and the thread has probed exactly if it won an exchange.
\<close>

definition detector :: "os \<Rightarrow> std_atomic_api_level \<Rightarrow> thread \<Rightarrow> bool" where
  "detector sys level th =
     (case pc th of
        Get_load \<Rightarrow> probes th = 0
      | Get_exchange \<Rightarrow> probes th = 0 \<and> api_level_value (Local th) \<le> api_level_value detecting
      | Get_probe \<Rightarrow>
          probes th = 0 \<and> api_level_value (Local th) \<le> api_level_value detecting \<and> level \<noteq> not_set
      | Get_publish \<Rightarrow>
          probes th = 1 \<and> found th = probe sys
          \<and> api_level_value (Local th) \<le> api_level_value detecting \<and> level \<noteq> not_set
      | Force_load \<Rightarrow> False
      | Force_exchange \<Rightarrow> False
      | Returned \<Rightarrow>
          level = detected_level sys
          \<and> probes th = (if api_level_value (Local th) \<le> api_level_value detecting then 1 else 0))"

definition detecting_process :: "os \<Rightarrow> process \<Rightarrow> bool" where
  "detecting_process sys p =
     ((Api_level (shared p) = not_set \<or> Api_level (shared p) = detecting
        \<or> Api_level (shared p) = detected_level sys)
      \<and> list_all (detector sys (Api_level (shared p))) (threads p)
      \<and> length (filter (exchanged_from not_set) (threads p)) \<le> 1)"

text \<open>\<open>n\<close> threads that call \<^verbatim>\<open>_Get_wait_functions\<close> for the first time, at the program's start.\<close>

definition detectors :: "nat \<Rightarrow> process" where
  "detectors n = \<lparr>shared = initial_functions, threads = replicate n (calls Get_load)\<rparr>"

text \<open>
  A thread in one of the two loops has a \<^verbatim>\<open>_Local\<close> that is not above \<^verbatim>\<open>__detecting\<close>: the
  loop is entered under that test, and left as soon as a failed exchange loads
  something above.
\<close>

definition in_loop :: "thread \<Rightarrow> bool" where
  "in_loop th =
     (if pc th = Get_exchange \<or> pc th = Force_exchange
      then api_level_value (Local th) \<le> api_level_value detecting else True)"

subsection \<open>A waiter and a notifier\<close>

text \<open>
  Which wake call reaches which blocked call: \<^verbatim>\<open>WakeAllConditionVariable\<close> wakes the
  threads asleep in \<^verbatim>\<open>SleepConditionVariableSRW\<close> on that condition variable, and
  \<^verbatim>\<open>WakeByAddressAll\<close> and \<^verbatim>\<open>WakeByAddressSingle\<close> wake threads asleep in \<^verbatim>\<open>WaitOnAddress\<close> on
  that address. No wake call of the one kind reaches a thread blocked in the other.
\<close>

fun wakes :: "os_call \<Rightarrow> os_call \<Rightarrow> bool" where
  "wakes (Call_WakeAllConditionVariable i) (Call_SleepConditionVariableSRW j ms) = (i = j)"
| "wakes (Call_WakeByAddressAll a) (Call_WaitOnAddress a' ms) = (a = a')"
| "wakes (Call_WakeByAddressSingle a) (Call_WaitOnAddress a' ms) = (a = a')"
| "wakes _ _ = False"

text \<open>
  An operating system call in which a thread may sleep, and the time it sleeps at most.
\<close>

fun blocking :: "os_call \<Rightarrow> bool" where
  "blocking (Call_SleepConditionVariableSRW i ms) = True"
| "blocking (Call_WaitOnAddress a ms) = True"
| "blocking _ = False"

fun waits_at_most :: "os_call \<Rightarrow> DWORD" where
  "waits_at_most (Call_SleepConditionVariableSRW i ms) = ms"
| "waits_at_most (Call_WaitOnAddress a ms) = ms"
| "waits_at_most _ = 0"

text \<open>
  Modelled from the spec: the loop of the caller of \<^verbatim>\<open>__std_atomic_wait_indirect\<close> is in a
  header that is not among the sources. The spec's protocol is: check the value;
  snapshot or prepare the wait state; recheck, or block. So the waiter checks the
  watched value. When it has not changed, the waiter calls \<^verbatim>\<open>__std_atomic_wait_indirect\<close>
  and, when that returns true, checks again. When the value has changed, or the call
  has returned false, the waiter leaves, with a call of \<^verbatim>\<open>__std_atomic_unwait_indirect\<close>,
  which the interface declares beside the wait for a context that is left in the phase
  \<^verbatim>\<open>_Atomic_unwait_needed\<close>. The notifier changes the value and calls
  \<^verbatim>\<open>__std_atomic_notify_all_indirect\<close>.

  The waiter is about to check the value, about to call, asleep in a blocking call,
  about to return from the blocking call it was asleep in (woken, or timed out), or
  gone. The notifier is about to change the value, about to test the level at the head
  of \<^verbatim>\<open>__std_atomic_notify_all_indirect\<close>, about to make one of the accesses that follow
  the test (the increment and the wake of lines 288 and 289, or the acquire, the release
  and the wake of \<^verbatim>\<open>_Atomic_notify_fallback\<close>), or done.
\<close>

datatype waiter_pc =
    Waiter_checks | Waiter_calls | Waiter_sleeps os_call | Waiter_returns os_call bool | Waiter_leaves

datatype notifier_pc =
    Notifier_mutates | Notifier_calls | Notifier_increments | Notifier_wakes
  | Notifier_acquires | Notifier_releases | Notifier_wakes_all | Notifier_done

text \<open>
  What happens next: a step of the waiter, a step of the notifier, the end of the time
  the waiter sleeps at most, a wakeup of the waiter that no wake call has caused, or
  the store of lines 163--171 by a thread that has run the probe of
  \<^verbatim>\<open>_Get_wait_functions\<close>.
\<close>

datatype event = Waiter_steps | Notifier_steps | Timeout_fires | Spurious_wakeup | Level_published

text \<open>
  \<open>value_changed\<close>: whether the notifier has changed the watched value. \<open>timed_out\<close>:
  whether a wait call of the waiter has returned false. In the \<open>scene_world\<close>, which the
  two threads share, \<open>Entry_Lock\<close> says whether one of them holds the lock.
\<close>

record scene =
  scene_world :: world
  value_changed :: bool
  waiter_at :: waiter_pc
  waiter_context :: Atomic_wait_context_t
  timed_out :: bool
  notifier_at :: notifier_pc

text \<open>
  \<^verbatim>\<open>WaitOnAddress\<close> compares the value at the address with the comparand and, in one
  step, returns true when they differ and puts the thread to sleep when they are
  equal; with no time to sleep it returns false instead. \<^verbatim>\<open>__std_atomic_wait_indirect\<close>
  hands it the counter of the entry and, as the comparand, the \<^verbatim>\<open>_Counter\<close> of the
  context (lines 258--259). \<^verbatim>\<open>SleepConditionVariableSRW\<close> does not compare.
\<close>

fun differs :: "scene \<Rightarrow> os_call \<Rightarrow> bool" where
  "differs s (Call_WaitOnAddress (Entry_Counter_address i) ms) =
     (Entry_Counter (wait_table (scene_world s) i) \<noteq> Counter (waiter_context s))"
| "differs s (Call_WaitOnAddress (Storage_address a) ms) = value_changed s"
| "differs s _ = False"

text \<open>
  \<^verbatim>\<open>SleepConditionVariableSRW\<close> releases the lock as it puts the thread to sleep, and
  acquires it again before it returns.
\<close>

definition lock_held :: "bool \<Rightarrow> uintptr_t \<Rightarrow> world \<Rightarrow> world" where
  "lock_held held i w = w\<lparr>wait_table := (wait_table w)(i := (wait_table w i)\<lparr>Entry_Lock := held\<rparr>)\<rparr>"

fun asleep :: "os_call \<Rightarrow> world \<Rightarrow> world" where
  "asleep (Call_SleepConditionVariableSRW i ms) w = lock_held False i w"
| "asleep _ w = w"

fun awake :: "os_call \<Rightarrow> world \<Rightarrow> world" where
  "awake (Call_SleepConditionVariableSRW i ms) w = lock_held True i w"
| "awake _ w = w"

fun lock_taken :: "os_call \<Rightarrow> world \<Rightarrow> bool" where
  "lock_taken (Call_SleepConditionVariableSRW i ms) w = Entry_Lock (wait_table w i)"
| "lock_taken _ w = False"

text \<open>
  The code the waiter runs when it calls, and when it returns from the blocking call
  it is in: a thread in \<^verbatim>\<open>SleepConditionVariableSRW\<close> is in \<^verbatim>\<open>_Atomic_wait_fallback\<close>, past
  the test of the level. \<open>answer\<close> is what the blocking call returns, a false one
  being a timeout.
\<close>

fun wait_call ::
  "build \<Rightarrow> os \<Rightarrow> uintptr_t \<Rightarrow> os_call option \<Rightarrow> bool \<Rightarrow> Atomic_wait_context_t \<Rightarrow> world
    \<Rightarrow> failure + (bool \<times> Atomic_wait_context_t \<times> world)" where
  "wait_call b sys Storage (Some (Call_SleepConditionVariableSRW i ms)) answer Wait_context w =
     Atomic_wait_fallback b (sys\<lparr>blocking_succeeds := answer, GetLastError := ERROR_TIMEOUT\<rparr>)
       Storage Wait_context w"
| "wait_call b sys Storage _ answer Wait_context w =
     std_atomic_wait_indirect b (sys\<lparr>blocking_succeeds := answer, GetLastError := ERROR_TIMEOUT\<rparr>)
       Storage Wait_context w"

text \<open>The waiter's call has returned \<open>r\<close>.\<close>

definition wait_returned ::
  "build \<Rightarrow> uintptr_t \<Rightarrow> scene \<Rightarrow> bool \<times> Atomic_wait_context_t \<times> world \<Rightarrow> failure + scene" where
  "wait_returned b Storage s = (\<lambda>(r, Wait_context, w).
     if r then Inr (s\<lparr>scene_world := w, waiter_context := Wait_context, waiter_at := Waiter_checks\<rparr>)
     else and_then (std_atomic_unwait_indirect b Storage Wait_context w) (\<lambda>(Wait_context, w).
            Inr (s\<lparr>scene_world := w, waiter_context := Wait_context, waiter_at := Waiter_leaves,
                   timed_out := True\<rparr>)))"

text \<open>
  A step of the waiter. An acquire of a lock that is held waits: the step is not
  taken. The call is run with a blocking call that succeeds, to see which blocking
  call it reaches, if any: if that one puts the thread to sleep, the blocking call is
  not yet among the calls made (it is when it returns); else the call is run with the
  answer of the blocking call, and returns.
\<close>

definition waiter_step :: "build \<Rightarrow> os \<Rightarrow> uintptr_t \<Rightarrow> scene \<Rightarrow> failure + scene" where
  "waiter_step b sys Storage s =
     (case waiter_at s of
        Waiter_checks \<Rightarrow>
          if value_changed s
          then and_then (std_atomic_unwait_indirect b Storage (waiter_context s) (scene_world s))
                 (\<lambda>(Wait_context, w).
                    Inr (s\<lparr>scene_world := w, waiter_context := Wait_context, waiter_at := Waiter_leaves\<rparr>))
          else Inr (s\<lparr>waiter_at := Waiter_calls\<rparr>)
      | Waiter_calls \<Rightarrow>
          (case wait_call b sys Storage None True (waiter_context s) (scene_world s) of
             Inl e \<Rightarrow> if e = Deadlocked then Inr s else Inl e
           | Inr (r, Wait_context, w) \<Rightarrow>
               (case find blocking (drop (length (os_calls (scene_world s))) (os_calls w)) of
                  None \<Rightarrow> wait_returned b Storage s (r, Wait_context, w)
                | Some c \<Rightarrow>
                    if \<not> differs s c \<and> waits_at_most c \<noteq> 0
                    then Inr (s\<lparr>waiter_at := Waiter_sleeps c,
                                scene_world := asleep c (w\<lparr>os_calls := os_calls (scene_world s)\<rparr>)\<rparr>)
                    else and_then (wait_call b sys Storage None (differs s c) (waiter_context s)
                                     (scene_world s))
                           (wait_returned b Storage s)))
      | Waiter_sleeps c \<Rightarrow> Inr s
      | Waiter_returns c woken \<Rightarrow>
          if lock_taken c (scene_world s) then Inr s
          else and_then (wait_call b sys Storage (Some c) woken (waiter_context s)
                           (awake c (scene_world s)))
                 (wait_returned b Storage s)
      | Waiter_leaves \<Rightarrow> Inr s)"

text \<open>A wake call wakes the waiter if it is asleep in a call that the wake call reaches.\<close>

definition woken_by :: "os_call \<Rightarrow> scene \<Rightarrow> scene" where
  "woken_by call s =
     (case waiter_at s of
        Waiter_sleeps c \<Rightarrow> if wakes call c then s\<lparr>waiter_at := Waiter_returns c True\<rparr> else s
      | _ \<Rightarrow> s)"

text \<open>
  A step of the notifier: the accesses of \<^verbatim>\<open>__std_atomic_notify_all_indirect\<close> and of
  \<^verbatim>\<open>_Atomic_notify_fallback\<close>, one at a time. Its acquire waits while the lock is held.
\<close>

definition notifier_step :: "build \<Rightarrow> os \<Rightarrow> uintptr_t \<Rightarrow> scene \<Rightarrow> failure + scene" where
  "notifier_step b sys Storage s =
     (let Entry = Atomic_wait_table_entry Storage; w = scene_world s in
      case notifier_at s of
        Notifier_mutates \<Rightarrow> Inr (s\<lparr>value_changed := True, notifier_at := Notifier_calls\<rparr>)
      | Notifier_calls \<Rightarrow>
          (let (fallback, w) = fallback_taken b sys w in
           Inr (s\<lparr>scene_world := w,
                  notifier_at := (if fallback then Notifier_acquires else Notifier_increments)\<rparr>))
      | Notifier_increments \<Rightarrow>
          Inr (s\<lparr>scene_world := w\<lparr>wait_table := (wait_table w)
                    (Entry := (wait_table w Entry)\<lparr>Entry_Counter := Entry_Counter (wait_table w Entry) + 1\<rparr>)\<rparr>,
                 notifier_at := Notifier_wakes\<rparr>)
      | Notifier_wakes \<Rightarrow>
          and_then (crtWakeByAddressAll b sys (Entry_Counter_address Entry) w) (\<lambda>w.
            Inr (woken_by (last (os_calls w)) (s\<lparr>scene_world := w, notifier_at := Notifier_done\<rparr>)))
      | Notifier_acquires \<Rightarrow>
          (case AcquireSRWLockExclusive Entry w of
             Inl e \<Rightarrow> if e = Deadlocked then Inr s else Inl e
           | Inr w \<Rightarrow> Inr (s\<lparr>scene_world := w, notifier_at := Notifier_releases\<rparr>))
      | Notifier_releases \<Rightarrow>
          and_then (ReleaseSRWLockExclusive Entry w) (\<lambda>w.
            Inr (s\<lparr>scene_world := w, notifier_at := Notifier_wakes_all\<rparr>))
      | Notifier_wakes_all \<Rightarrow>
          Inr (woken_by (last (os_calls (WakeAllConditionVariable Entry w)))
                 (s\<lparr>scene_world := WakeAllConditionVariable Entry w, notifier_at := Notifier_done\<rparr>))
      | Notifier_done \<Rightarrow> Inr s)"

text \<open>
  A sleeping waiter times out only if the time it sleeps at most is not \<open>INFINITE\<close>.
\<close>

definition scene_step :: "build \<Rightarrow> os \<Rightarrow> uintptr_t \<Rightarrow> event \<Rightarrow> scene \<Rightarrow> failure + scene" where
  "scene_step b sys Storage e s =
     (case e of
        Waiter_steps \<Rightarrow> waiter_step b sys Storage s
      | Notifier_steps \<Rightarrow> notifier_step b sys Storage s
      | Timeout_fires \<Rightarrow>
          (case waiter_at s of
             Waiter_sleeps c \<Rightarrow>
               Inr (if waits_at_most c \<noteq> INFINITE then s\<lparr>waiter_at := Waiter_returns c False\<rparr> else s)
           | _ \<Rightarrow> Inr s)
      | Spurious_wakeup \<Rightarrow>
          (case waiter_at s of
             Waiter_sleeps c \<Rightarrow> Inr (s\<lparr>waiter_at := Waiter_returns c True\<rparr>)
           | _ \<Rightarrow> Inr s)
      | Level_published \<Rightarrow>
          Inr (s\<lparr>scene_world := (scene_world s)
                 \<lparr>Wait_functions := publish (probe sys) (Wait_functions (scene_world s))\<rparr>\<rparr>))"

fun scene_run :: "build \<Rightarrow> os \<Rightarrow> uintptr_t \<Rightarrow> event list \<Rightarrow> scene \<Rightarrow> failure + scene" where
  "scene_run b sys Storage [] s = Inr s"
| "scene_run b sys Storage (e # es) s =
     and_then (scene_step b sys Storage e s) (scene_run b sys Storage es)"

text \<open>The waiter about to check the value for the first time; the notifier about to change it.\<close>

definition scene_start :: "world \<Rightarrow> Atomic_wait_context_t \<Rightarrow> scene" where
  "scene_start w Wait_context =
     \<lparr>scene_world = w, value_changed = False, waiter_at = Waiter_checks,
      waiter_context = Wait_context, timed_out = False, notifier_at = Notifier_mutates\<rparr>"

text \<open>
  A process on the native path: the level is detected, and it is \<open>has_wait_on_address\<close>.
  A process on the fallback: the level is \<open>has_srwlock\<close>.
\<close>

definition native :: "build \<Rightarrow> world \<Rightarrow> bool" where
  "native b w =
     ((ATOMIC_WAIT_ON_ADDRESS_STATICALLY_AVAILABLE b \<or> Api_level (Wait_functions w) = has_wait_on_address)
      \<and> functions_resolved (Wait_functions w))"

definition fallback_only :: "build \<Rightarrow> world \<Rightarrow> bool" where
  "fallback_only b w =
     (\<not> ATOMIC_WAIT_ON_ADDRESS_STATICALLY_AVAILABLE b \<and> Api_level (Wait_functions w) = has_srwlock)"

text \<open>
  What holds throughout of a waiter whose wait does not time out and a notifier, on the
  native path. The context's phase is \<^verbatim>\<open>_Atomic_wait_phase_wait_none\<close> or
  \<^verbatim>\<open>_Atomic_wait_phase_wait_counter\<close>. Until the notifier has incremented the counter, a
  snapshot in the context is the counter; once it has, a waiter about to make its
  blocking call has a snapshot that differs from the counter; and once the notifier is
  done, the waiter is not asleep.
\<close>

definition native_scene :: "build \<Rightarrow> os \<Rightarrow> uintptr_t \<Rightarrow> scene \<Rightarrow> bool" where
  "native_scene b sys Storage s =
     (let Entry = Atomic_wait_table_entry Storage;
          phase = Wait_phase_and_spin_count (waiter_context s);
          blocked = Call_WaitOnAddress (Entry_Counter_address Entry)
                      (Get_remaining_wait_milliseconds b sys (waiter_context s));
          snapshot_is_counter =
            (Counter (waiter_context s) = Entry_Counter (wait_table (scene_world s) Entry))
      in native b (scene_world s)
         \<and> (phase = Atomic_wait_phase_wait_none \<or> phase = Atomic_wait_phase_wait_counter)
         \<and> (case waiter_at s of
               Waiter_sleeps c \<Rightarrow>
                 c = blocked \<and> phase = Atomic_wait_phase_wait_counter \<and> notifier_at s \<noteq> Notifier_done
             | Waiter_returns c woken \<Rightarrow> c = blocked \<and> phase = Atomic_wait_phase_wait_counter \<and> woken
             | _ \<Rightarrow> True)
         \<and> (case notifier_at s of
               Notifier_mutates \<Rightarrow> phase = Atomic_wait_phase_wait_counter \<longrightarrow> snapshot_is_counter
             | Notifier_calls \<Rightarrow> phase = Atomic_wait_phase_wait_counter \<longrightarrow> snapshot_is_counter
             | Notifier_increments \<Rightarrow> phase = Atomic_wait_phase_wait_counter \<longrightarrow> snapshot_is_counter
             | Notifier_wakes \<Rightarrow>
                 waiter_at s = Waiter_calls \<and> phase = Atomic_wait_phase_wait_counter
                   \<longrightarrow> \<not> snapshot_is_counter
             | Notifier_done \<Rightarrow>
                 waiter_at s = Waiter_calls \<and> phase = Atomic_wait_phase_wait_counter
                   \<longrightarrow> \<not> snapshot_is_counter
             | _ \<Rightarrow> False))"

text \<open>
  The same on the fallback. The context's phase is \<^verbatim>\<open>_Atomic_wait_phase_wait_none\<close> or
  \<^verbatim>\<open>_Atomic_wait_phase_wait_locked\<close>. The lock is held by the waiter when its phase is
  \<^verbatim>\<open>_Atomic_wait_phase_wait_locked\<close> and it is not in its blocking call, by the notifier
  between its acquire and its release, and by no thread else. While the waiter is about
  to make its blocking call the notifier has not acquired the lock; and once the
  notifier is done, the waiter is not asleep.
\<close>

definition fallback_scene :: "build \<Rightarrow> os \<Rightarrow> uintptr_t \<Rightarrow> scene \<Rightarrow> bool" where
  "fallback_scene b sys Storage s =
     (let Entry = Atomic_wait_table_entry Storage;
          phase = Wait_phase_and_spin_count (waiter_context s);
          blocked = Call_SleepConditionVariableSRW Entry
                      (Get_remaining_wait_milliseconds b sys (waiter_context s));
          waiter_holds = (phase = Atomic_wait_phase_wait_locked
                           \<and> (waiter_at s = Waiter_checks \<or> waiter_at s = Waiter_calls))
      in fallback_only b (scene_world s)
         \<and> (phase = Atomic_wait_phase_wait_none \<or> phase = Atomic_wait_phase_wait_locked)
         \<and> (case waiter_at s of
               Waiter_checks \<Rightarrow> True
             | Waiter_calls \<Rightarrow>
                 phase = Atomic_wait_phase_wait_locked \<longrightarrow>
                   notifier_at s = Notifier_mutates \<or> notifier_at s = Notifier_calls
                   \<or> notifier_at s = Notifier_acquires
             | Waiter_sleeps c \<Rightarrow>
                 c = blocked \<and> phase = Atomic_wait_phase_wait_locked \<and> notifier_at s \<noteq> Notifier_done
             | Waiter_returns c woken \<Rightarrow> c = blocked \<and> phase = Atomic_wait_phase_wait_locked \<and> woken
             | Waiter_leaves \<Rightarrow> phase = Atomic_wait_phase_wait_none)
         \<and> Entry_Lock (wait_table (scene_world s) Entry) =
             (waiter_holds \<or> notifier_at s = Notifier_releases)
         \<and> \<not> (waiter_holds \<and> notifier_at s = Notifier_releases)
         \<and> notifier_at s \<noteq> Notifier_increments \<and> notifier_at s \<noteq> Notifier_wakes)"

text \<open>
  On either path: no wait call has returned false, the deadline has not passed, and the
  value has changed when the notifier is past its first step.
\<close>

definition no_wakeup_missed :: "build \<Rightarrow> os \<Rightarrow> uintptr_t \<Rightarrow> scene \<Rightarrow> bool" where
  "no_wakeup_missed b sys Storage s =
     (\<not> timed_out s
      \<and> Get_remaining_wait_milliseconds b sys (waiter_context s) \<noteq> 0
      \<and> value_changed s = (notifier_at s \<noteq> Notifier_mutates)
      \<and> (native_scene b sys Storage s \<or> fallback_scene b sys Storage s))"

subsection \<open>Concrete inputs\<close>

text \<open>
  A build without static wait functions; the answers of an operating system whose
  lookups all give \<open>symbol\<close> (\<open>0\<close>: no symbol found); the process at its start, with the
  wait table zero-initialised; a wait context.
\<close>

definition dynamic_build :: "bool \<Rightarrow> build" where
  "dynamic_build debug =
     \<lparr>DEBUG = debug, ATOMIC_WAIT_ON_ADDRESS_STATICALLY_AVAILABLE = False,
      Atomic_wait_no_timeout = 0xFFFFFFFFFFFFFFFF\<rparr>"

definition os_answers :: "ULONGLONG \<Rightarrow> bool \<Rightarrow> DWORD \<Rightarrow> uintptr_t \<Rightarrow> os" where
  "os_answers now succeeds error symbol =
     \<lparr>GetTickCount64 = now, blocking_succeeds = succeeds, GetLastError = error,
      GetModuleHandleW = (\<lambda>_. 1), GetProcAddress = (\<lambda>_ _. symbol), spurious_failures = []\<rparr>"

definition initial_world :: world where
  "initial_world =
     \<lparr>wait_table = (\<lambda>_. \<lparr>Entry_Counter = 0, Entry_Lock = False\<rparr>),
      Wait_functions = initial_functions, os_calls = []\<rparr>"

definition waiting_until :: "ULONGLONG \<Rightarrow> DWORD \<Rightarrow> Atomic_wait_context_t" where
  "waiting_until deadline phase =
     \<lparr>Wait_phase_and_spin_count = phase, Deadline = deadline, Counter = 0\<rparr>"

text \<open>The process after the thread has acquired the lock of the entry of \<open>Storage\<close>.\<close>

definition holding_lock :: "uintptr_t \<Rightarrow> world" where
  "holding_lock Storage =
     initial_world\<lparr>wait_table := (wait_table initial_world)
         (Atomic_wait_table_entry Storage := \<lparr>Entry_Counter = 0, Entry_Lock = True\<rparr>),
       os_calls := [Call_AcquireSRWLockExclusive (Atomic_wait_table_entry Storage)]\<rparr>"

text \<open>
  Two threads in \<^verbatim>\<open>_Get_wait_functions\<close>: thread 0 loads and exchanges, thread 1 loads
  and exchanges, then each probes and each publishes.
\<close>

definition race_schedule :: "(nat \<times> bool) list" where
  "race_schedule =
     [(0, False), (0, False), (1, False), (1, False), (0, False), (1, False), (0, False), (1, False)]"

text \<open>
  Thread 0 calls \<^verbatim>\<open>_Get_wait_functions\<close> and thread 1 calls
  \<^verbatim>\<open>_Force_wait_functions_srwlock_only\<close>.
\<close>

definition detector_and_forcer :: process where
  "detector_and_forcer = \<lparr>shared = initial_functions, threads = [calls Get_load, calls Force_load]\<rparr>"

section \<open>Properties\<close>

subsection \<open>One thread alone\<close>

lemma and_then_simps [simp]:
  "and_then (Inl e) f = Inl e"
  "and_then (Inr x) f = f x"
  by (simp_all add: and_then_def)

text \<open>
  With no other thread in between, the loop ends with the exchange done, however
  often it fails spuriously first.
\<close>

lemma exchange_loop_alone:
  "api_level_value obj \<le> api_level_value detecting \<Longrightarrow>
     exchange_loop fails desired obj obj = (True, desired)"
proof (induction fails)
  case Nil
  show ?case by (subst exchange_loop.simps) (simp add: compare_exchange_weak_def)
next
  case (Cons f fails)
  then show ?case
    by (subst exchange_loop.simps) (cases f; simp add: compare_exchange_weak_def)
qed

lemma Get_wait_functions_alone:
  "Get_wait_functions sys t =
     (if api_level_value (Api_level t) \<le> api_level_value detecting
      then publish (probe sys) (t\<lparr>Api_level := detecting\<rparr>) else t)"
  by (simp add: Get_wait_functions_def exchange_loop_alone Let_def)

lemma Force_wait_functions_srwlock_only_alone:
  "Force_wait_functions_srwlock_only sys t =
     (if api_level_value (Api_level t) \<le> api_level_value detecting
      then t\<lparr>Api_level := has_srwlock\<rparr> else t)"
  by (simp add: Force_wait_functions_srwlock_only_def exchange_loop_alone Let_def)

lemma Api_level_publish:
  "Api_level (publish fnd t) =
     (if fst fnd \<noteq> 0 \<and> fst (snd fnd) \<noteq> 0 \<and> snd (snd fnd) \<noteq> 0
      then has_wait_on_address else has_srwlock)"
  by (cases fnd) (simp add: publish_def)

lemma Get_wait_functions_terminal:
  "api_level_value (Api_level (Get_wait_functions sys t)) > api_level_value detecting"
  by (simp add: Get_wait_functions_alone Api_level_publish)

lemma Get_wait_functions_idem:
  "Get_wait_functions sys (Get_wait_functions sys t) = Get_wait_functions sys t"
  using Get_wait_functions_terminal [of sys t]
  by (subst Get_wait_functions_alone) simp

lemma fallback_taken_other:
  "wait_table (snd (fallback_taken b sys w)) = wait_table w"
  "os_calls (snd (fallback_taken b sys w)) = os_calls w"
  by (simp_all add: fallback_taken_def Have_wait_functions_def Let_def)

subsection \<open>Deadlines\<close>

lemma remaining_unat:
  "unat (Get_remaining_wait_milliseconds b sys ctx) =
     (if Deadline ctx = Atomic_wait_no_timeout b then unat INFINITE
      else if unat (Deadline ctx) \<le> unat (GetTickCount64 sys) then 0
      else min (unat (Deadline ctx) - unat (GetTickCount64 sys)) 864000000)"
proof -
  have ten: "unat (ucast Ten_days :: 64 word) = 864000000" "unat Ten_days = 864000000"
    by (simp_all add: Ten_days_def)
  show ?thesis
  proof (cases "Deadline ctx = Atomic_wait_no_timeout b")
    case True
    then show ?thesis by (simp add: Get_remaining_wait_milliseconds_def)
  next
    case ns: False
    show ?thesis
    proof (cases "GetTickCount64 sys \<ge> Deadline ctx")
      case True
      then show ?thesis using ns
        by (simp add: Get_remaining_wait_milliseconds_def word_le_nat_alt)
    next
      case False
      then have lt: "unat (GetTickCount64 sys) < unat (Deadline ctx)"
        by (simp add: word_le_nat_alt)
      then have sub: "unat (Deadline ctx - GetTickCount64 sys) = unat (Deadline ctx) - unat (GetTickCount64 sys)"
        by (simp add: unat_sub word_le_nat_alt)
      show ?thesis
      proof (cases "Deadline ctx - GetTickCount64 sys > ucast Ten_days")
        case True
        then have "unat (Deadline ctx) - unat (GetTickCount64 sys) > 864000000"
          using sub ten by (simp add: word_less_nat_alt)
        then show ?thesis using ns False True lt ten
          by (simp add: Get_remaining_wait_milliseconds_def Let_def word_le_nat_alt)
      next
        case le: False
        then have bound: "unat (Deadline ctx) - unat (GetTickCount64 sys) \<le> 864000000"
          using sub ten by (simp add: word_less_nat_alt)
        have "unat (ucast (Deadline ctx - GetTickCount64 sys) :: 32 word) = unat (Deadline ctx - GetTickCount64 sys)"
          using bound sub by (simp add: unsigned_ucast_eq take_bit_nat_eq_self)
        then show ?thesis using ns False le lt bound sub
          by (simp add: Get_remaining_wait_milliseconds_def Let_def word_le_nat_alt)
      qed
    qed
  qed
qed

lemma unat_deadline:
  "unat (Deadline (std_atomic_wait_get_deadline b sys Wait_context Timeout)) =
     (if Timeout = Atomic_wait_no_timeout b then unat (Atomic_wait_no_timeout b)
      else (unat (GetTickCount64 sys) + unat Timeout) mod 2 ^ 64)"
  by (simp add: std_atomic_wait_get_deadline_def unat_word_ariths)

text \<open>
  C8, as amended. The deadline of a timeout is the no-timeout sentinel for the
  no-timeout sentinel. For every other timeout it is the tick count plus the timeout in
  64-bit unsigned arithmetic, that is their sum modulo \<open>2\<^sup>6\<^sup>4\<close>: it is the sum itself
  exactly when the sum is below \<open>2\<^sup>6\<^sup>4\<close>. The remaining time of a deadline is \<open>INFINITE\<close>
  for the sentinel; otherwise it is 0 when the tick count has reached the deadline, and
  else the deadline minus the tick count, at most the ten days of 864000000
  milliseconds (nothing is lost in that subtraction or in the conversion to 32 bits).
\<close>

theorem deadline_arithmetic:
  "std_atomic_wait_get_deadline b sys Wait_context Timeout =
     Wait_context\<lparr>Deadline :=
       (if Timeout = Atomic_wait_no_timeout b then Atomic_wait_no_timeout b
        else GetTickCount64 sys + Timeout)\<rparr>
   \<and> unat (Deadline (std_atomic_wait_get_deadline b sys Wait_context Timeout)) =
       (if Timeout = Atomic_wait_no_timeout b then unat (Atomic_wait_no_timeout b)
        else (unat (GetTickCount64 sys) + unat Timeout) mod 2 ^ 64)
   \<and> (Timeout \<noteq> Atomic_wait_no_timeout b \<and> unat (GetTickCount64 sys) + unat Timeout < 2 ^ 64 \<longrightarrow>
        unat (Deadline (std_atomic_wait_get_deadline b sys Wait_context Timeout)) =
          unat (GetTickCount64 sys) + unat Timeout)
   \<and> unat (Get_remaining_wait_milliseconds b sys Wait_context) =
       (if Deadline Wait_context = Atomic_wait_no_timeout b then unat INFINITE
        else if unat (Deadline Wait_context) \<le> unat (GetTickCount64 sys) then 0
        else min (unat (Deadline Wait_context) - unat (GetTickCount64 sys)) 864000000)"
proof -
  have "std_atomic_wait_get_deadline b sys Wait_context Timeout =
     Wait_context\<lparr>Deadline :=
       (if Timeout = Atomic_wait_no_timeout b then Atomic_wait_no_timeout b
        else GetTickCount64 sys + Timeout)\<rparr>"
    by (simp add: std_atomic_wait_get_deadline_def)
  moreover have "Timeout \<noteq> Atomic_wait_no_timeout b \<and> unat (GetTickCount64 sys) + unat Timeout < 2 ^ 64 \<longrightarrow>
        unat (Deadline (std_atomic_wait_get_deadline b sys Wait_context Timeout)) =
          unat (GetTickCount64 sys) + unat Timeout"
    by (simp add: unat_deadline)
  ultimately show ?thesis
    using unat_deadline [of b sys Wait_context Timeout] remaining_unat [of b sys Wait_context]
    by simp
qed

text \<open>At tick 100 the timeout 50 gives the deadline 150.\<close>

theorem deadline_arithmetic_witness:
  "(50 :: 64 word) \<noteq> Atomic_wait_no_timeout (dynamic_build False)
   \<and> unat (GetTickCount64 (os_answers 100 True 0 0)) + unat (50 :: 64 word) < 2 ^ 64
   \<and> unat (Deadline (std_atomic_wait_get_deadline (dynamic_build False) (os_answers 100 True 0 0)
        (waiting_until 0 0) 50)) = 150"
  using deadline_arithmetic [of "dynamic_build False" "os_answers 100 True 0 0" "waiting_until 0 0" 50]
  by (simp add: dynamic_build_def os_answers_def)

text \<open>
  The claim as stated fails where the sum wraps around. At tick 100 the timeout
  \<open>0xFFFFFFFFFFFFFFFE\<close>, which is not the sentinel, gives the deadline 98 and not the
  sum 18446744073709551714: a deadline before the tick count, with no time remaining.
\<close>

theorem deadline_wraps:
  "(0xFFFFFFFFFFFFFFFE :: 64 word) \<noteq> Atomic_wait_no_timeout (dynamic_build False)
   \<and> unat (GetTickCount64 (os_answers 100 True 0 0)) + unat (0xFFFFFFFFFFFFFFFE :: 64 word) =
       18446744073709551714
   \<and> unat (Deadline (std_atomic_wait_get_deadline (dynamic_build False) (os_answers 100 True 0 0)
        (waiting_until 0 0) 0xFFFFFFFFFFFFFFFE)) = 98
   \<and> Get_remaining_wait_milliseconds (dynamic_build False) (os_answers 100 True 0 0)
        (std_atomic_wait_get_deadline (dynamic_build False) (os_answers 100 True 0 0)
           (waiting_until 0 0) 0xFFFFFFFFFFFFFFFE) = 0"
  by (simp add: std_atomic_wait_get_deadline_def Get_remaining_wait_milliseconds_def
        dynamic_build_def os_answers_def waiting_until_def)

subsection \<open>The table of wait functions, one thread alone\<close>

lemma functions_resolved_publish: "functions_resolved (publish fnd t)"
  by (cases fnd) (simp add: publish_def functions_resolved_def)

lemma functions_resolved_Get_wait_functions:
  "functions_resolved t \<Longrightarrow> functions_resolved (Get_wait_functions sys t)"
  by (simp add: Get_wait_functions_alone functions_resolved_publish)

lemma functions_resolved_Force_wait_functions_srwlock_only:
  "functions_resolved t \<Longrightarrow> functions_resolved (Force_wait_functions_srwlock_only sys t)"
  by (simp add: Force_wait_functions_srwlock_only_alone functions_resolved_def)

lemma functions_resolved_initial: "functions_resolved initial_functions"
  by (simp add: functions_resolved_def initial_functions_def)

text \<open>
  The fallback is taken exactly when the wait functions are not statically available
  and the level, after the detection that the call may run, is not
  \<open>has_wait_on_address\<close>.
\<close>

lemma fallback_taken_eq:
  "fallback_taken b sys w =
     (if ATOMIC_WAIT_ON_ADDRESS_STATICALLY_AVAILABLE b then (False, w)
      else (Api_level (Get_wait_functions sys (Wait_functions w)) \<noteq> has_wait_on_address,
            w\<lparr>Wait_functions := Get_wait_functions sys (Wait_functions w)\<rparr>))"
proof -
  have "(api_level_value has_wait_on_address \<le> api_level_value l) = (l = has_wait_on_address)" for l
    by (cases l) simp_all
  then show ?thesis
    by (simp add: fallback_taken_def Have_wait_functions_def Let_def)
qed

lemma crtWakeByAddressAll_native:
  assumes "\<not> fst (fallback_taken b sys w)" "functions_resolved (Wait_functions w)"
  shows "crtWakeByAddressAll b sys Address (snd (fallback_taken b sys w)) =
           Inr (WakeByAddressAll Address (snd (fallback_taken b sys w)))"
  using assms functions_resolved_Get_wait_functions [of "Wait_functions w" sys]
  by (auto simp: fallback_taken_eq crtWakeByAddressAll_def Let_def Get_wait_functions_idem
        functions_resolved_def split: if_splits)

lemma crtWaitOnAddress_native:
  assumes "\<not> fst (fallback_taken b sys w)" "functions_resolved (Wait_functions w)"
  shows "crtWaitOnAddress b sys Address ms (snd (fallback_taken b sys w)) =
           Inr (WaitOnAddress sys Address ms (snd (fallback_taken b sys w)))"
  using assms functions_resolved_Get_wait_functions [of "Wait_functions w" sys]
  by (auto simp: fallback_taken_eq crtWaitOnAddress_def Let_def Get_wait_functions_idem
        functions_resolved_def split: if_splits)

subsection \<open>The concrete inputs\<close>

lemmas input_defs = dynamic_build_def os_answers_def initial_world_def waiting_until_def
  initial_functions_def

lemma native_input:
  "fallback_taken (dynamic_build d) (os_answers now ok err 4096) initial_world =
    (False, initial_world\<lparr>Wait_functions := \<lparr>Pfn_WaitOnAddress = 4096, Pfn_WakeByAddressSingle = 4096,
        Pfn_WakeByAddressAll = 4096, Api_level = has_wait_on_address\<rparr>\<rparr>)"
  by (simp add: fallback_taken_eq Get_wait_functions_alone input_defs probe_def publish_def)

lemma fallback_input:
  "fallback_taken (dynamic_build d) (os_answers now ok err 0) initial_world =
    (True, initial_world\<lparr>Wait_functions := \<lparr>Pfn_WaitOnAddress = 0, Pfn_WakeByAddressSingle = 0,
        Pfn_WakeByAddressAll = 0, Api_level = has_srwlock\<rparr>\<rparr>)"
  by (simp add: fallback_taken_eq Get_wait_functions_alone input_defs probe_def publish_def)

lemma resolved_input: "functions_resolved (Wait_functions initial_world)"
  by (simp add: functions_resolved_def input_defs)

lemma remaining_input:
  "Get_remaining_wait_milliseconds (dynamic_build d) (os_answers 100 ok err s) (waiting_until 150 ph) = 50"
  "Get_remaining_wait_milliseconds (dynamic_build d) (os_answers 200 ok err s) (waiting_until 150 ph) = 0"
  by (simp_all add: Get_remaining_wait_milliseconds_def input_defs Ten_days_def)

lemma phases_differ:
  "Atomic_wait_phase_wait_none \<noteq> Atomic_wait_phase_wait_locked"
  "Atomic_wait_phase_wait_locked \<noteq> Atomic_wait_phase_wait_none"
  by (simp_all add: Atomic_wait_phase_wait_none_def Atomic_wait_phase_wait_locked_def)

subsection \<open>Indirect wait\<close>

text \<open>
  C2. On the native path (the fallback is not taken), a call of
  \<^verbatim>\<open>__std_atomic_wait_indirect\<close> with a context in the phase \<^verbatim>\<open>_Atomic_wait_phase_wait_none\<close>
  returns true with the counter of the entry of the address copied into the context
  and the phase advanced to \<^verbatim>\<open>_Atomic_wait_phase_wait_counter\<close>. It does not block: it
  makes no call that synchronises with another thread, and it leaves the wait table
  as it was.
\<close>

theorem wait_indirect_first_call:
  assumes "\<not> fst (fallback_taken b sys w)"
    and "Wait_phase_and_spin_count Wait_context = Atomic_wait_phase_wait_none"
  shows "std_atomic_wait_indirect b sys Storage Wait_context w =
           Inr (True,
                Wait_context\<lparr>Counter := Entry_Counter (wait_table w (Atomic_wait_table_entry Storage)),
                  Wait_phase_and_spin_count := Atomic_wait_phase_wait_counter\<rparr>,
                snd (fallback_taken b sys w))
         \<and> os_calls (snd (fallback_taken b sys w)) = os_calls w
         \<and> wait_table (snd (fallback_taken b sys w)) = wait_table w"
  using assms
  by (simp add: std_atomic_wait_indirect_def fallback_taken_other split_beta Let_def)

text \<open>
  The first indirect wait of a process whose operating system has the three symbols:
  the context's counter, 99 before, is the entry's 0 after.
\<close>

theorem wait_indirect_first_call_witness:
  "\<not> fst (fallback_taken (dynamic_build False) (os_answers 100 True 0 4096) initial_world)
   \<and> Wait_phase_and_spin_count ((waiting_until 150 Atomic_wait_phase_wait_none)\<lparr>Counter := 99\<rparr>) =
       Atomic_wait_phase_wait_none
   \<and> std_atomic_wait_indirect (dynamic_build False) (os_answers 100 True 0 4096) 4660
        ((waiting_until 150 Atomic_wait_phase_wait_none)\<lparr>Counter := 99\<rparr>) initial_world =
       Inr (True, waiting_until 150 Atomic_wait_phase_wait_counter,
            snd (fallback_taken (dynamic_build False) (os_answers 100 True 0 4096) initial_world))"
  using wait_indirect_first_call [of "dynamic_build False" "os_answers 100 True 0 4096" initial_world
      "(waiting_until 150 Atomic_wait_phase_wait_none)\<lparr>Counter := 99\<rparr>" 4660]
  by (simp add: native_input) (simp add: waiting_until_def initial_world_def)

subsection \<open>Indirect notify\<close>

lemma notify_all_indirect_native:
  assumes "\<not> fst (fallback_taken b sys w)" "functions_resolved (Wait_functions w)"
  shows "std_atomic_notify_all_indirect b sys Storage w =
     Inr ((snd (fallback_taken b sys w))
       \<lparr>wait_table := (wait_table w)(Atomic_wait_table_entry Storage :=
           (wait_table w (Atomic_wait_table_entry Storage))
             \<lparr>Entry_Counter := Entry_Counter (wait_table w (Atomic_wait_table_entry Storage)) + 1\<rparr>),
        os_calls := os_calls w @ [Call_WakeByAddressAll (Entry_Counter_address (Atomic_wait_table_entry Storage))]\<rparr>)"
proof -
  let ?w = "snd (fallback_taken b sys w)"
  let ?E = "Atomic_wait_table_entry Storage"
  let ?w1 = "?w\<lparr>wait_table := (wait_table ?w)(?E := (wait_table ?w ?E)\<lparr>Entry_Counter := Entry_Counter (wait_table ?w ?E) + 1\<rparr>)\<rparr>"
  have ft: "fallback_taken b sys ?w1 = (False, ?w1)"
    using assms(1) by (auto simp: fallback_taken_eq Get_wait_functions_idem split: if_splits)
  have res: "functions_resolved (Wait_functions ?w1)"
    using assms(2) functions_resolved_Get_wait_functions [of "Wait_functions w" sys]
    by (auto simp: fallback_taken_eq split: if_splits)
  have "\<not> fst (fallback_taken b sys ?w1)" using ft by simp
  from crtWakeByAddressAll_native [OF this res, of "Entry_Counter_address ?E"]
  have "crtWakeByAddressAll b sys (Entry_Counter_address ?E) ?w1 = Inr (WakeByAddressAll (Entry_Counter_address ?E) ?w1)"
    using ft by simp
  then show ?thesis
    using assms(1)
    by (simp add: std_atomic_notify_all_indirect_def split_beta Let_def fallback_taken_other WakeByAddressAll_def)
qed

lemma notify_all_indirect_native_again:
  assumes "\<not> fst (fallback_taken b sys w)" "functions_resolved (Wait_functions w)"
    and "std_atomic_notify_all_indirect b sys Storage w = Inr w'"
  shows "\<not> fst (fallback_taken b sys w')" "functions_resolved (Wait_functions w')"
  using assms functions_resolved_Get_wait_functions [of "Wait_functions w" sys]
  unfolding notify_all_indirect_native [OF assms(1,2)]
  by (auto simp: fallback_taken_eq Get_wait_functions_idem split: if_splits)

lemma notify_indirect_calls_native:
  assumes "\<not> fst (fallback_taken b sys w)" "functions_resolved (Wait_functions w)"
  shows "\<exists>w'. notify_indirect_calls which b sys Storage w = Inr w'
           \<and> wait_table w' = (wait_table w)(Atomic_wait_table_entry Storage :=
                (wait_table w (Atomic_wait_table_entry Storage))
                  \<lparr>Entry_Counter := Entry_Counter (wait_table w (Atomic_wait_table_entry Storage))
                     + of_nat (length which)\<rparr>)
           \<and> os_calls w' = os_calls w @ replicate (length which)
                (Call_WakeByAddressAll (Entry_Counter_address (Atomic_wait_table_entry Storage)))"
  using assms
proof (induction which arbitrary: w)
  case Nil
  then show ?case by simp
next
  case (Cons one rest)
  let ?E = "Atomic_wait_table_entry Storage"
  let ?wake = "Call_WakeByAddressAll (Entry_Counter_address ?E)"
  obtain w1 where w1: "std_atomic_notify_all_indirect b sys Storage w = Inr w1"
    using notify_all_indirect_native [OF Cons.prems] by blast
  have t1: "wait_table w1 = (wait_table w)(?E :=
              (wait_table w ?E)\<lparr>Entry_Counter := Entry_Counter (wait_table w ?E) + 1\<rparr>)"
    and o1: "os_calls w1 = os_calls w @ [?wake]"
    using w1 unfolding notify_all_indirect_native [OF Cons.prems] by auto
  from notify_all_indirect_native_again [OF Cons.prems w1]
  have "\<not> fst (fallback_taken b sys w1)" "functions_resolved (Wait_functions w1)" by simp_all
  from Cons.IH [OF this] obtain w' where w':
    "notify_indirect_calls rest b sys Storage w1 = Inr w'"
    "wait_table w' = (wait_table w1)(?E :=
        (wait_table w1 ?E)\<lparr>Entry_Counter := Entry_Counter (wait_table w1 ?E) + of_nat (length rest)\<rparr>)"
    "os_calls w' = os_calls w1 @ replicate (length rest) ?wake"
    by blast
  have "notify_indirect_calls (one # rest) b sys Storage w = Inr w'"
    using w1 w'(1) by (simp add: std_atomic_notify_one_indirect_def)
  moreover have "wait_table w' = (wait_table w)(?E :=
        (wait_table w ?E)\<lparr>Entry_Counter := Entry_Counter (wait_table w ?E) + of_nat (length (one # rest))\<rparr>)"
    using w'(2) t1 by (simp add: add.assoc)
  moreover have "os_calls w' = os_calls w @ replicate (length (one # rest)) ?wake"
    using w'(3) o1 by simp
  ultimately show ?case by blast
qed

lemma lock_restored:
  "\<not> Entry_Lock (t i) \<Longrightarrow> t(i := (t i)\<lparr>Entry_Lock := False\<rparr>) = t"
  by (rule ext) simp

lemma Atomic_notify_fallback_eq:
  "Atomic_notify_fallback Storage w =
     (if Entry_Lock (wait_table w (Atomic_wait_table_entry Storage)) then Inl Deadlocked
      else Inr (w\<lparr>os_calls := os_calls w @
             [Call_AcquireSRWLockExclusive (Atomic_wait_table_entry Storage),
              Call_ReleaseSRWLockExclusive (Atomic_wait_table_entry Storage),
              Call_WakeAllConditionVariable (Atomic_wait_table_entry Storage)]\<rparr>))"
  by (simp add: Atomic_notify_fallback_def AcquireSRWLockExclusive_def ReleaseSRWLockExclusive_def
        WakeAllConditionVariable_def Let_def lock_restored)

lemma notify_all_indirect_fallback:
  assumes "fst (fallback_taken b sys w)"
  shows "std_atomic_notify_all_indirect b sys Storage w =
           Atomic_notify_fallback Storage (snd (fallback_taken b sys w))"
  using assms by (simp add: std_atomic_notify_all_indirect_def split_beta)

lemma unat_plus_of_nat:
  fixes c :: "64 word"
  assumes "unat c + n < 2 ^ 64"
  shows "unat (c + of_nat n) = unat c + n"
proof -
  have n: "unat (of_nat n :: 64 word) = n"
    using assms by (simp add: unat_of_nat)
  have "unat c + unat (of_nat n :: 64 word) < 2 ^ LENGTH(64)"
    using assms n by simp
  then have "unat (c + of_nat n) = unat c + unat (of_nat n :: 64 word)"
    by (simp only: unat_add_lem)
  then show ?thesis using n by simp
qed

text \<open>
  C3, as amended. On the native path, calls of \<^verbatim>\<open>__std_atomic_notify_one_indirect\<close> and
  \<^verbatim>\<open>__std_atomic_notify_all_indirect\<close> for an address, \<open>n\<close> of them in any mix, return and
  leave the counter of its entry increased by \<open>n\<close> in 64-bit arithmetic, which is an
  increase by exactly \<open>n\<close> unless the counter wraps around; nothing else in the wait
  table changes, and each call makes the one call \<^verbatim>\<open>WakeByAddressAll\<close> on the counter. On
  the fallback path either function leaves the wait table, and so the counter, as it
  was: it acquires the lock of the entry, releases it, wakes all waiters of the entry's
  condition variable and returns. (A thread that holds that lock itself never gets
  past the acquire.)
\<close>

theorem notify_indirect_counter:
  "(\<not> fst (fallback_taken b sys w) \<and> functions_resolved (Wait_functions w) \<longrightarrow>
      (\<exists>w'. notify_indirect_calls which b sys Storage w = Inr w'
         \<and> wait_table w' = (wait_table w)(Atomic_wait_table_entry Storage :=
              (wait_table w (Atomic_wait_table_entry Storage))
                \<lparr>Entry_Counter := Entry_Counter (wait_table w (Atomic_wait_table_entry Storage))
                   + of_nat (length which)\<rparr>)
         \<and> os_calls w' = os_calls w @ replicate (length which)
              (Call_WakeByAddressAll (Entry_Counter_address (Atomic_wait_table_entry Storage)))
         \<and> (unat (Entry_Counter (wait_table w (Atomic_wait_table_entry Storage))) + length which < 2 ^ 64 \<longrightarrow>
              unat (Entry_Counter (wait_table w' (Atomic_wait_table_entry Storage))) =
                unat (Entry_Counter (wait_table w (Atomic_wait_table_entry Storage))) + length which)))
   \<and> (fst (fallback_taken b sys w) \<longrightarrow>
        std_atomic_notify_one_indirect b sys Storage w = std_atomic_notify_all_indirect b sys Storage w
        \<and> std_atomic_notify_all_indirect b sys Storage w =
           (if Entry_Lock (wait_table w (Atomic_wait_table_entry Storage)) then Inl Deadlocked
            else Inr ((snd (fallback_taken b sys w))\<lparr>os_calls := os_calls w @
                 [Call_AcquireSRWLockExclusive (Atomic_wait_table_entry Storage),
                  Call_ReleaseSRWLockExclusive (Atomic_wait_table_entry Storage),
                  Call_WakeAllConditionVariable (Atomic_wait_table_entry Storage)]\<rparr>))
        \<and> wait_table (snd (fallback_taken b sys w)) = wait_table w)"
proof (intro conjI impI)
  let ?E = "Atomic_wait_table_entry Storage"
  assume "\<not> fst (fallback_taken b sys w) \<and> functions_resolved (Wait_functions w)"
  then obtain w' where w': "notify_indirect_calls which b sys Storage w = Inr w'"
      "wait_table w' = (wait_table w)(?E :=
          (wait_table w ?E)\<lparr>Entry_Counter := Entry_Counter (wait_table w ?E) + of_nat (length which)\<rparr>)"
      "os_calls w' = os_calls w @ replicate (length which) (Call_WakeByAddressAll (Entry_Counter_address ?E))"
    using notify_indirect_calls_native [of b sys w which Storage] by blast
  have "unat (Entry_Counter (wait_table w ?E)) + length which < 2 ^ 64 \<longrightarrow>
          unat (Entry_Counter (wait_table w' ?E)) = unat (Entry_Counter (wait_table w ?E)) + length which"
    using w'(2) by (simp add: unat_plus_of_nat)
  then show "\<exists>w'. notify_indirect_calls which b sys Storage w = Inr w'
         \<and> wait_table w' = (wait_table w)(?E :=
              (wait_table w ?E)\<lparr>Entry_Counter := Entry_Counter (wait_table w ?E) + of_nat (length which)\<rparr>)
         \<and> os_calls w' = os_calls w @ replicate (length which)
              (Call_WakeByAddressAll (Entry_Counter_address ?E))
         \<and> (unat (Entry_Counter (wait_table w ?E)) + length which < 2 ^ 64 \<longrightarrow>
              unat (Entry_Counter (wait_table w' ?E)) =
                unat (Entry_Counter (wait_table w ?E)) + length which)"
    using w' by blast
next
  show "std_atomic_notify_one_indirect b sys Storage w = std_atomic_notify_all_indirect b sys Storage w"
    by (simp add: std_atomic_notify_one_indirect_def)
next
  assume "fst (fallback_taken b sys w)"
  then show "std_atomic_notify_all_indirect b sys Storage w =
           (if Entry_Lock (wait_table w (Atomic_wait_table_entry Storage)) then Inl Deadlocked
            else Inr ((snd (fallback_taken b sys w))\<lparr>os_calls := os_calls w @
                 [Call_AcquireSRWLockExclusive (Atomic_wait_table_entry Storage),
                  Call_ReleaseSRWLockExclusive (Atomic_wait_table_entry Storage),
                  Call_WakeAllConditionVariable (Atomic_wait_table_entry Storage)]\<rparr>))"
    by (simp add: notify_all_indirect_fallback Atomic_notify_fallback_eq fallback_taken_other)
next
  show "wait_table (snd (fallback_taken b sys w)) = wait_table w"
    by (simp add: fallback_taken_other)
qed

text \<open>
  Three notifies, one and all mixed, where the operating system has the symbols count
  to three; a notify where it has none makes the three calls of the fallback.
\<close>

theorem notify_indirect_counter_witness:
  "\<not> fst (fallback_taken (dynamic_build False) (os_answers 100 True 0 4096) initial_world)
   \<and> functions_resolved (Wait_functions initial_world)
   \<and> unat (Entry_Counter (wait_table initial_world (Atomic_wait_table_entry 4660)))
        + length [True, False, True] < 2 ^ 64
   \<and> map_sum id (\<lambda>w. unat (Entry_Counter (wait_table w (Atomic_wait_table_entry 4660))))
        (notify_indirect_calls [True, False, True] (dynamic_build False) (os_answers 100 True 0 4096)
           4660 initial_world) =
      Inr 3
   \<and> fst (fallback_taken (dynamic_build False) (os_answers 100 True 0 0) initial_world)
   \<and> map_sum id os_calls
       (std_atomic_notify_one_indirect (dynamic_build False) (os_answers 100 True 0 0) 4660 initial_world) =
      Inr [Call_AcquireSRWLockExclusive (Atomic_wait_table_entry 4660),
           Call_ReleaseSRWLockExclusive (Atomic_wait_table_entry 4660),
           Call_WakeAllConditionVariable (Atomic_wait_table_entry 4660)]"
proof -
  have zero: "Entry_Counter (wait_table initial_world (Atomic_wait_table_entry 4660)) = 0"
    by (simp add: initial_world_def)
  have free: "\<not> Entry_Lock (wait_table initial_world (Atomic_wait_table_entry 4660))"
    by (simp add: initial_world_def)
  have none: "os_calls initial_world = []"
    by (simp add: initial_world_def)
  show ?thesis
    using notify_indirect_counter [of "dynamic_build False" "os_answers 100 True 0 4096" initial_world
        "[True, False, True]" 4660]
      notify_indirect_counter [of "dynamic_build False" "os_answers 100 True 0 0" initial_world
        "[True, False, True]" 4660]
    by (auto simp: native_input fallback_input resolved_input zero free none)
qed

text \<open>
  The claim as stated fails where the level is \<open>has_srwlock\<close>: the notify takes the
  fallback, returns after the three calls on the lock and the condition variable, and
  the wait table is the one before the call, its counters not incremented.
\<close>

theorem notify_indirect_fallback_no_increment:
  "fst (fallback_taken (dynamic_build False) (os_answers 100 True 0 0) initial_world)
   \<and> map_sum id wait_table
        (std_atomic_notify_all_indirect (dynamic_build False) (os_answers 100 True 0 0) 4660 initial_world) =
      Inr (wait_table initial_world)
   \<and> map_sum id os_calls
        (std_atomic_notify_all_indirect (dynamic_build False) (os_answers 100 True 0 0) 4660 initial_world) =
      Inr [Call_AcquireSRWLockExclusive (Atomic_wait_table_entry 4660),
           Call_ReleaseSRWLockExclusive (Atomic_wait_table_entry 4660),
           Call_WakeAllConditionVariable (Atomic_wait_table_entry 4660)]"
  by (simp add: notify_all_indirect_fallback fallback_input Atomic_notify_fallback_eq)
     (simp add: initial_world_def)

text \<open>
  C10. \<^verbatim>\<open>__std_atomic_notify_one_indirect\<close> is \<^verbatim>\<open>__std_atomic_notify_all_indirect\<close>, for every
  build, answer of the operating system, address and process. On the native path
  the one call it makes is \<^verbatim>\<open>WakeByAddressAll\<close> on the counter of the entry, not
  \<^verbatim>\<open>WakeByAddressSingle\<close>.
\<close>

theorem notify_one_indirect_is_all:
  "std_atomic_notify_one_indirect b sys Storage w = std_atomic_notify_all_indirect b sys Storage w
   \<and> (\<not> fst (fallback_taken b sys w) \<and> functions_resolved (Wait_functions w) \<longrightarrow>
        map_sum id os_calls (std_atomic_notify_one_indirect b sys Storage w) =
          Inr (os_calls w @ [Call_WakeByAddressAll (Entry_Counter_address (Atomic_wait_table_entry Storage))]))"
  by (auto simp: std_atomic_notify_one_indirect_def notify_all_indirect_native)

theorem notify_one_indirect_is_all_witness:
  "\<not> fst (fallback_taken (dynamic_build False) (os_answers 100 True 0 4096) initial_world)
   \<and> functions_resolved (Wait_functions initial_world)
   \<and> map_sum id os_calls
       (std_atomic_notify_one_indirect (dynamic_build False) (os_answers 100 True 0 4096) 4660 initial_world) =
      Inr [Call_WakeByAddressAll (Entry_Counter_address (Atomic_wait_table_entry 4660))]"
proof -
  have none: "os_calls initial_world = []"
    by (simp add: initial_world_def)
  show ?thesis
    using notify_one_indirect_is_all [of "dynamic_build False" "os_answers 100 True 0 4096" 4660 initial_world]
    by (simp add: native_input resolved_input none std_atomic_notify_one_indirect_def)
qed

subsection \<open>Direct wait and notify\<close>

text \<open>
  C7, as amended. When \<^verbatim>\<open>__std_atomic_wait_direct\<close> takes the native path and
  \<^verbatim>\<open>WaitOnAddress\<close> fails, the call returns false if the error is \<^verbatim>\<open>ERROR_TIMEOUT\<close>. For
  any other error it aborts in a build with \<^verbatim>\<open>_DEBUG\<close>; in a build without, the error
  is not looked at and the call returns false as for a timeout.
\<close>

theorem wait_direct_native_failure:
  assumes "\<not> fst (fallback_taken b sys w)"
    and "functions_resolved (Wait_functions w)"
    and "\<not> blocking_succeeds sys"
  shows "std_atomic_wait_direct b sys Storage Comparand Size Wait_context w =
     (if DEBUG b \<and> GetLastError sys \<noteq> ERROR_TIMEOUT then Inl Aborted
      else Inr (False, Wait_context,
             (snd (fallback_taken b sys w))\<lparr>os_calls := os_calls w @
                [Call_WaitOnAddress (Storage_address Storage)
                   (Get_remaining_wait_milliseconds b sys Wait_context)]\<rparr>))"
  using assms(1,3) crtWaitOnAddress_native [OF assms(1,2)]
  by (simp add: std_atomic_wait_direct_def split_beta WaitOnAddress_def Assume_timeout_def
        fallback_taken_other)

text \<open>With \<^verbatim>\<open>_DEBUG\<close>, the error 87 (\<^verbatim>\<open>ERROR_INVALID_PARAMETER\<close>) aborts.\<close>

theorem wait_direct_native_failure_witness:
  "\<not> fst (fallback_taken (dynamic_build True) (os_answers 100 False 87 4096) initial_world)
   \<and> functions_resolved (Wait_functions initial_world)
   \<and> \<not> blocking_succeeds (os_answers 100 False 87 4096)
   \<and> std_atomic_wait_direct (dynamic_build True) (os_answers 100 False 87 4096) 4660 8000 4
        (waiting_until 150 0) initial_world = Inl Aborted"
  using wait_direct_native_failure [of "dynamic_build True" "os_answers 100 False 87 4096" initial_world
      4660 8000 4 "waiting_until 150 0"]
  by (simp add: native_input resolved_input)
     (simp add: os_answers_def dynamic_build_def ERROR_TIMEOUT_def)

text \<open>
  The claim as stated fails in a build without \<^verbatim>\<open>_DEBUG\<close>: the same failure, which is
  not a timeout, is returned as false.
\<close>

theorem wait_direct_failure_not_fatal:
  "\<not> fst (fallback_taken (dynamic_build False) (os_answers 100 False 87 4096) initial_world)
   \<and> \<not> blocking_succeeds (os_answers 100 False 87 4096)
   \<and> GetLastError (os_answers 100 False 87 4096) \<noteq> ERROR_TIMEOUT
   \<and> map_sum id fst (std_atomic_wait_direct (dynamic_build False) (os_answers 100 False 87 4096) 4660 8000 4
        (waiting_until 150 0) initial_world) = Inr False"
  by (simp add: std_atomic_wait_direct_def native_input crtWaitOnAddress_def
        Get_wait_functions_alone WaitOnAddress_def Assume_timeout_def)
     (simp add: os_answers_def dynamic_build_def ERROR_TIMEOUT_def)

text \<open>
  C9. On the fallback path \<^verbatim>\<open>__std_atomic_notify_one_direct\<close> and
  \<^verbatim>\<open>__std_atomic_notify_all_direct\<close> do the same for every address: they acquire the
  lock of its entry, release it, and wake all waiters of the entry's condition
  variable. (A thread that holds that lock itself never gets past the acquire.)
\<close>

theorem notify_direct_fallback:
  assumes "fst (fallback_taken b sys w)"
  shows "std_atomic_notify_one_direct b sys Storage w = std_atomic_notify_all_direct b sys Storage w
    \<and> std_atomic_notify_all_direct b sys Storage w =
       (if Entry_Lock (wait_table w (Atomic_wait_table_entry Storage)) then Inl Deadlocked
        else Inr ((snd (fallback_taken b sys w))\<lparr>os_calls := os_calls w @
             [Call_AcquireSRWLockExclusive (Atomic_wait_table_entry Storage),
              Call_ReleaseSRWLockExclusive (Atomic_wait_table_entry Storage),
              Call_WakeAllConditionVariable (Atomic_wait_table_entry Storage)]\<rparr>))"
  using assms
  by (simp add: std_atomic_notify_one_direct_def std_atomic_notify_all_direct_def split_beta
        Atomic_notify_fallback_eq fallback_taken_other)

theorem notify_direct_fallback_witness:
  "fst (fallback_taken (dynamic_build False) (os_answers 100 True 0 0) initial_world)
   \<and> std_atomic_notify_one_direct (dynamic_build False) (os_answers 100 True 0 0) 4660 initial_world =
     std_atomic_notify_all_direct (dynamic_build False) (os_answers 100 True 0 0) 4660 initial_world
   \<and> map_sum id os_calls
        (std_atomic_notify_one_direct (dynamic_build False) (os_answers 100 True 0 0) 4660 initial_world) =
       Inr [Call_AcquireSRWLockExclusive (Atomic_wait_table_entry 4660),
            Call_ReleaseSRWLockExclusive (Atomic_wait_table_entry 4660),
            Call_WakeAllConditionVariable (Atomic_wait_table_entry 4660)]"
  using notify_direct_fallback [of "dynamic_build False" "os_answers 100 True 0 0" initial_world 4660]
  by (simp add: fallback_input) (simp add: initial_world_def)

subsection \<open>The fallback wait\<close>

text \<open>
  C6, as amended. A caller holds the lock of the entry exactly while its context is in
  the phase \<^verbatim>\<open>_Atomic_wait_phase_wait_locked\<close>. When \<^verbatim>\<open>_Atomic_wait_fallback\<close> then returns
  false, the lock is not held on return, except where the call was made in that phase
  with no time remaining: that call returns before it looks at the phase, and leaves
  the lock held and the phase as it was. On every false return the lock is held
  exactly when the context returned is in the phase \<^verbatim>\<open>_Atomic_wait_phase_wait_locked\<close>,
  and \<^verbatim>\<open>_Atomic_unwait_fallback\<close> on that context returns with the lock not held.
\<close>

theorem fallback_wait_false_lock:
  assumes "Atomic_wait_fallback b sys Storage Wait_context w = Inr (False, Wait_context', w')"
    and "Entry_Lock (wait_table w (Atomic_wait_table_entry Storage)) =
           (Wait_phase_and_spin_count Wait_context = Atomic_wait_phase_wait_locked)"
  shows "Entry_Lock (wait_table w' (Atomic_wait_table_entry Storage)) =
           (Wait_phase_and_spin_count Wait_context = Atomic_wait_phase_wait_locked
            \<and> Get_remaining_wait_milliseconds b sys Wait_context = 0)
       \<and> Entry_Lock (wait_table w' (Atomic_wait_table_entry Storage)) =
           (Wait_phase_and_spin_count Wait_context' = Atomic_wait_phase_wait_locked)
       \<and> map_sum id (\<lambda>r. Entry_Lock (wait_table (snd r) (Atomic_wait_table_entry Storage)))
            (Atomic_unwait_fallback Storage Wait_context' w') = Inr False"
proof (cases "Get_remaining_wait_milliseconds b sys Wait_context = 0")
  case True
  with assms show ?thesis
    by (auto simp: Atomic_wait_fallback_def Atomic_unwait_fallback_def ReleaseSRWLockExclusive_def
          Let_def)
next
  case False
  with assms show ?thesis
    by (auto simp: Atomic_wait_fallback_def Atomic_unwait_fallback_def ReleaseSRWLockExclusive_def
          AcquireSRWLockExclusive_def SleepConditionVariableSRW_def Assume_timeout_def Let_def
          phases_differ split: if_splits)
qed

text \<open>
  A sleep of 50 milliseconds that times out: the call returns false, the phase is
  back to \<^verbatim>\<open>_Atomic_wait_phase_wait_none\<close>, and the lock has been released.
\<close>

theorem fallback_wait_false_lock_witness:
  "Atomic_wait_fallback (dynamic_build False) (os_answers 100 False ERROR_TIMEOUT 0) 4660
       (waiting_until 150 Atomic_wait_phase_wait_locked) (holding_lock 4660) =
     Inr (False, waiting_until 150 Atomic_wait_phase_wait_none,
          (holding_lock 4660)\<lparr>wait_table := (wait_table (holding_lock 4660))
              (Atomic_wait_table_entry 4660 := \<lparr>Entry_Counter = 0, Entry_Lock = False\<rparr>),
            os_calls := [Call_AcquireSRWLockExclusive (Atomic_wait_table_entry 4660),
                         Call_SleepConditionVariableSRW (Atomic_wait_table_entry 4660) 50,
                         Call_ReleaseSRWLockExclusive (Atomic_wait_table_entry 4660)]\<rparr>)
   \<and> Entry_Lock (wait_table (holding_lock 4660) (Atomic_wait_table_entry 4660)) =
       (Wait_phase_and_spin_count (waiting_until 150 Atomic_wait_phase_wait_locked) =
          Atomic_wait_phase_wait_locked)
   \<and> \<not> Entry_Lock (wait_table
         ((holding_lock 4660)\<lparr>wait_table := (wait_table (holding_lock 4660))
              (Atomic_wait_table_entry 4660 := \<lparr>Entry_Counter = 0, Entry_Lock = False\<rparr>),
            os_calls := [Call_AcquireSRWLockExclusive (Atomic_wait_table_entry 4660),
                         Call_SleepConditionVariableSRW (Atomic_wait_table_entry 4660) 50,
                         Call_ReleaseSRWLockExclusive (Atomic_wait_table_entry 4660)]\<rparr>)
         (Atomic_wait_table_entry 4660))"
proof -
  let ?w' = "(holding_lock 4660)\<lparr>wait_table := (wait_table (holding_lock 4660))
              (Atomic_wait_table_entry 4660 := \<lparr>Entry_Counter = 0, Entry_Lock = False\<rparr>),
            os_calls := [Call_AcquireSRWLockExclusive (Atomic_wait_table_entry 4660),
                         Call_SleepConditionVariableSRW (Atomic_wait_table_entry 4660) 50,
                         Call_ReleaseSRWLockExclusive (Atomic_wait_table_entry 4660)]\<rparr>"
  have held: "Entry_Lock (wait_table (holding_lock 4660) (Atomic_wait_table_entry 4660))"
    by (simp add: holding_lock_def)
  have phase: "Wait_phase_and_spin_count (waiting_until 150 Atomic_wait_phase_wait_locked) =
      Atomic_wait_phase_wait_locked"
    by (simp add: waiting_until_def)
  have call: "Atomic_wait_fallback (dynamic_build False) (os_answers 100 False ERROR_TIMEOUT 0) 4660
       (waiting_until 150 Atomic_wait_phase_wait_locked) (holding_lock 4660) =
     Inr (False, waiting_until 150 Atomic_wait_phase_wait_none, ?w')"
    using held
    by (simp add: Atomic_wait_fallback_def remaining_input Let_def phase phases_differ
          SleepConditionVariableSRW_def Assume_timeout_def ReleaseSRWLockExclusive_def)
       (simp add: waiting_until_def holding_lock_def os_answers_def)
  show ?thesis
    using fallback_wait_false_lock [OF call] held phase call
    by simp
qed

text \<open>
  The claim as stated fails for a deadline that has expired when the call is made in
  the phase \<^verbatim>\<open>_Atomic_wait_phase_wait_locked\<close>. A first call at tick 100, with the
  deadline 150, acquires the lock and returns true; the next call, at tick 200,
  returns false with the lock still held.
\<close>

theorem fallback_wait_expired_keeps_lock:
  "Atomic_wait_fallback (dynamic_build False) (os_answers 100 True 0 0) 4660
       (waiting_until 150 Atomic_wait_phase_wait_none) initial_world =
     Inr (True, waiting_until 150 Atomic_wait_phase_wait_locked, holding_lock 4660)
   \<and> Atomic_wait_fallback (dynamic_build False) (os_answers 200 True 0 0) 4660
       (waiting_until 150 Atomic_wait_phase_wait_locked) (holding_lock 4660) =
     Inr (False, waiting_until 150 Atomic_wait_phase_wait_locked, holding_lock 4660)
   \<and> Entry_Lock (wait_table (holding_lock 4660) (Atomic_wait_table_entry 4660))"
  by (simp add: Atomic_wait_fallback_def remaining_input Let_def)
     (simp add: waiting_until_def AcquireSRWLockExclusive_def holding_lock_def initial_world_def Let_def)

subsection \<open>Threads racing on the feature level\<close>

lemma detected_level_terminal: "api_level_value (detected_level sys) > api_level_value detecting"
  by (simp add: detected_level_def Api_level_publish)

lemma Api_level_publish_detected: "Api_level (publish (probe sys) t) = detected_level sys"
  by (simp add: detected_level_def Api_level_publish)

text \<open>
  A step of a thread inside \<^verbatim>\<open>_Get_wait_functions\<close> keeps it one, keeps the level among
  not set, detecting and detected, changes neither the detected level once it is
  stored nor a level that is set back to \<^verbatim>\<open>__not_set\<close>, and makes the thread one that
  exchanged from \<^verbatim>\<open>__not_set\<close> only when that is the level stored.
\<close>

lemma thread_step_detector:
  assumes "detector sys (Api_level t) th"
    and "Api_level t = not_set \<or> Api_level t = detecting \<or> Api_level t = detected_level sys"
    and "thread_step sys spurious t th = (t', th')"
  shows "detector sys (Api_level t') th'"
    and "Api_level t' = not_set \<or> Api_level t' = detecting \<or> Api_level t' = detected_level sys"
    and "Api_level t = detected_level sys \<Longrightarrow> Api_level t' = detected_level sys"
    and "Api_level t \<noteq> not_set \<Longrightarrow> Api_level t' \<noteq> not_set"
    and "exchanged_from not_set th' \<Longrightarrow> exchanged_from not_set th \<or> Api_level t = not_set"
    and "exchanged_from not_set th \<Longrightarrow> exchanged_from not_set th'"
  using assms detected_level_terminal [of sys]
  by (cases "pc th";
      auto simp: thread_step_def detector_def compare_exchange_weak_def Let_def exchanged_from_def
        Api_level_publish_detected split: if_splits)+

lemma detector_level:
  assumes "detector sys level th"
    and "level = detected_level sys \<Longrightarrow> level' = detected_level sys"
    and "level \<noteq> not_set \<Longrightarrow> level' \<noteq> not_set"
  shows "detector sys level' th"
  using assms by (cases "pc th") (auto simp: detector_def)

lemma detector_not_set:
  "detector sys not_set th \<Longrightarrow> \<not> exchanged_from not_set th"
  using detected_level_terminal [of sys]
  by (cases "pc th") (auto simp: detector_def exchanged_from_def)

lemma length_filter_update:
  "i < length xs \<Longrightarrow>
     length (filter P (xs[i := x])) + (if P (xs ! i) then 1 else 0) =
       length (filter P xs) + (if P x then 1 else 0)"
proof (induction xs arbitrary: i)
  case Nil
  then show ?case by simp
next
  case (Cons y ys)
  then show ?case by (cases i) auto
qed

lemma filter_none: "\<forall>x \<in> set xs. \<not> P x \<Longrightarrow> filter P xs = []"
  by (induction xs) auto

lemma step_detecting_process:
  assumes "detecting_process sys p"
  shows "detecting_process sys (step sys s p)"
proof (cases s)
  case (Pair i spurious)
  show ?thesis
  proof (cases "i < length (threads p)")
    case False
    then show ?thesis using assms Pair by (simp add: step_def)
  next
    case True
    obtain t' th' where st: "thread_step sys spurious (shared p) (threads p ! i) = (t', th')"
      by (cases "thread_step sys spurious (shared p) (threads p ! i)")
    have all: "\<forall>th \<in> set (threads p). detector sys (Api_level (shared p)) th"
      using assms by (simp add: detecting_process_def list_all_iff)
    then have mine: "detector sys (Api_level (shared p)) (threads p ! i)"
      using True by simp
    have lvl: "Api_level (shared p) = not_set \<or> Api_level (shared p) = detecting
        \<or> Api_level (shared p) = detected_level sys"
      using assms by (simp add: detecting_process_def)
    have one: "length (filter (exchanged_from not_set) (threads p)) \<le> 1"
      using assms by (simp add: detecting_process_def)
    note after = thread_step_detector [OF mine lvl st]
    have "detector sys (Api_level t') th" if "th \<in> set ((threads p)[i := th'])" for th
    proof -
      from that have "th = th' \<or> th \<in> set (threads p)"
        using set_update_subset_insert [of "threads p" i th'] by auto
      then show ?thesis
        using after(1) after(3) after(4) all detector_level by blast
    qed
    moreover have "length (filter (exchanged_from not_set) ((threads p)[i := th'])) \<le> 1"
    proof (cases "exchanged_from not_set th' \<and> \<not> exchanged_from not_set (threads p ! i)")
      case True
      then have "Api_level (shared p) = not_set" using after(5) by blast
      then have "\<forall>th \<in> set (threads p). \<not> exchanged_from not_set th"
        using all detector_not_set by metis
      then have "filter (exchanged_from not_set) (threads p) = []"
        by (rule filter_none)
      then show ?thesis
        using length_filter_update [OF \<open>i < length (threads p)\<close>, of "exchanged_from not_set" th'] True
        by simp
    next
      case False
      then show ?thesis
        using length_filter_update [OF \<open>i < length (threads p)\<close>, of "exchanged_from not_set" th'] one
          after(6)
        by (auto split: if_splits)
    qed
    ultimately show ?thesis
      using after(2) True Pair st by (simp add: step_def detecting_process_def list_all_iff)
  qed
qed

lemma run_detecting_process:
  "detecting_process sys p \<Longrightarrow> detecting_process sys (run sys schedule p)"
  unfolding run_def
  by (induction schedule arbitrary: p) (simp_all add: step_detecting_process)

lemma length_threads_step: "length (threads (step sys s p)) = length (threads p)"
  by (cases s) (simp add: step_def split_beta)

lemma length_threads_run: "length (threads (run sys schedule p)) = length (threads p)"
  unfolding run_def
  by (induction schedule arbitrary: p) (simp_all add: length_threads_step)

lemma detectors_detecting_process: "detecting_process sys (detectors n)"
  by (simp add: detecting_process_def detectors_def initial_functions_def list_all_iff
        detector_def calls_def exchanged_from_def)

lemma detector_probes: "detector sys level th \<Longrightarrow> probes th \<le> 1"
  by (cases "pc th") (auto simp: detector_def)

lemma detector_facts:
  assumes "detector sys level th"
  shows "probes th = 1 \<longrightarrow>
           (pc th = Get_publish \<or> pc th = Returned) \<and> (Local th = not_set \<or> Local th = detecting)"
    and "pc th = Returned \<longrightarrow>
           level = detected_level sys
           \<and> (probes th = 1) = (api_level_value (Local th) \<le> api_level_value detecting)"
    and "pc th = Get_exchange \<longrightarrow> Local th = not_set \<or> Local th = detecting"
  using assms
  by (cases "pc th"; cases "Local th"; auto simp: detector_def)+

text \<open>The probe is run by the step at the probe, and by no other.\<close>

lemma thread_step_probes:
  "probes (snd (thread_step sys spurious t th)) = (if pc th = Get_probe then probes th + 1 else probes th)"
  by (cases "pc th")
     (auto simp: thread_step_def compare_exchange_weak_def Let_def split: if_splits)

text \<open>
  A thread gets to the probe by an exchange that does not fail spuriously and finds
  the level at the thread's \<^verbatim>\<open>_Local\<close>, and in no other way.
\<close>

lemma thread_step_to_probe:
  "(pc (snd (thread_step sys spurious t th)) = Get_probe) =
     (pc th = Get_exchange \<and> \<not> spurious \<and> Api_level t = Local th)"
  by (cases "pc th")
     (auto simp: thread_step_def compare_exchange_weak_def Let_def split: if_splits)

text \<open>A thread that finds a terminal level, at its load or at its exchange, returns.\<close>

lemma thread_step_finds_terminal:
  assumes "detector sys (Api_level t) th"
    and "api_level_value (Api_level t) > api_level_value detecting"
    and "pc th = Get_load \<or> pc th = Get_exchange"
  shows "thread_step sys spurious t th = (t, th\<lparr>Local := Api_level t, pc := Returned\<rparr>)"
  using assms
  by (auto simp: thread_step_def detector_def compare_exchange_weak_def Let_def)

lemma sum_list_bounded:
  "\<forall>x \<in> set xs. f x \<le> (1::nat) \<Longrightarrow> sum_list (map f xs) \<le> length xs"
  by (induction xs) auto

lemma detectors_2:
  "detectors 2 = \<lparr>shared = initial_functions, threads = [calls Get_load, calls Get_load]\<rparr>"
  by (simp add: detectors_def numeral_2_eq_2)

text \<open>The race of two detecting threads, step by step.\<close>

lemma race_run:
  "run (os_answers 100 True 0 4096) race_schedule (detectors 2) =
     \<lparr>shared = \<lparr>Pfn_WaitOnAddress = 4096, Pfn_WakeByAddressSingle = 4096,
          Pfn_WakeByAddressAll = 4096, Api_level = has_wait_on_address\<rparr>,
      threads = [\<lparr>pc = Returned, Local = not_set, found = (4096, 4096, 4096), probes = 1\<rparr>,
                 \<lparr>pc = Returned, Local = detecting, found = (4096, 4096, 4096), probes = 1\<rparr>]\<rparr>"
  by (simp add: run_def race_schedule_def detectors_2 step_def thread_step_def calls_def
        initial_functions_def compare_exchange_weak_def probe_def publish_def os_answers_def)

lemma detectors_3:
  "detectors 3 =
     \<lparr>shared = initial_functions, threads = [calls Get_load, calls Get_load, calls Get_load]\<rparr>"
  by (simp add: detectors_def numeral_3_eq_3)

text \<open>The same race with a third thread that does not step before the other two are done.\<close>

lemma race_run_3:
  "run (os_answers 100 True 0 4096) race_schedule (detectors 3) =
     \<lparr>shared = \<lparr>Pfn_WaitOnAddress = 4096, Pfn_WakeByAddressSingle = 4096,
          Pfn_WakeByAddressAll = 4096, Api_level = has_wait_on_address\<rparr>,
      threads = [\<lparr>pc = Returned, Local = not_set, found = (4096, 4096, 4096), probes = 1\<rparr>,
                 \<lparr>pc = Returned, Local = detecting, found = (4096, 4096, 4096), probes = 1\<rparr>,
                 calls Get_load]\<rparr>"
  by (simp add: run_def race_schedule_def detectors_3 step_def thread_step_def calls_def
        initial_functions_def compare_exchange_weak_def probe_def publish_def os_answers_def)

text \<open>
  C4, as amended. \<open>n\<close> threads call \<^verbatim>\<open>_Get_wait_functions\<close> for the first time; \<open>p\<close> is the
  process after any schedule of their steps.

  The probe is run only by a caller that has won its exchange to \<^verbatim>\<open>__detecting\<close>, and by
  each caller at most once, so at most \<open>n\<close> times: a thread that has probed is past its
  loop with \<^verbatim>\<open>_Local\<close> at \<^verbatim>\<open>__not_set\<close> or \<^verbatim>\<open>__detecting\<close>; a step runs the probe exactly if
  the thread is at the probe; and a step takes a thread to the probe exactly if it is
  an exchange that does not fail spuriously and finds the level at the thread's
  \<^verbatim>\<open>_Local\<close>, which at an exchange is \<^verbatim>\<open>__not_set\<close> or \<^verbatim>\<open>__detecting\<close>. At most one
  caller wins the exchange from \<^verbatim>\<open>__not_set\<close>; a caller that finds \<^verbatim>\<open>__detecting\<close> wins its
  exchange as well, so more than one caller may probe.

  A caller that finds a terminal level, at its load or at its exchange, returns
  without a probe and without a store. Whenever a caller has returned, the level stored
  is the one the probe leads to, a terminal level: all callers observe the same level.
\<close>

theorem detection_race:
  assumes "p = run sys schedule (detectors n)"
  shows "sum_list (map probes (threads p)) \<le> n
   \<and> length (filter (exchanged_from not_set) (threads p)) \<le> 1
   \<and> api_level_value (detected_level sys) > api_level_value detecting
   \<and> list_all (\<lambda>th.
        probes th \<le> 1
        \<and> (probes th = 1 \<longrightarrow>
             (pc th = Get_publish \<or> pc th = Returned) \<and> (Local th = not_set \<or> Local th = detecting))
        \<and> (pc th = Returned \<longrightarrow>
             Api_level (shared p) = detected_level sys
             \<and> (probes th = 1) = (api_level_value (Local th) \<le> api_level_value detecting))
        \<and> (pc th = Get_exchange \<longrightarrow> Local th = not_set \<or> Local th = detecting)
        \<and> (\<forall>spurious.
              probes (snd (thread_step sys spurious (shared p) th)) =
                (if pc th = Get_probe then probes th + 1 else probes th)
              \<and> (pc (snd (thread_step sys spurious (shared p) th)) = Get_probe) =
                  (pc th = Get_exchange \<and> \<not> spurious \<and> Api_level (shared p) = Local th)
              \<and> (api_level_value (Api_level (shared p)) > api_level_value detecting
                   \<and> (pc th = Get_load \<or> pc th = Get_exchange) \<longrightarrow>
                  thread_step sys spurious (shared p) th =
                    (shared p, th\<lparr>Local := Api_level (shared p), pc := Returned\<rparr>))))
      (threads p)"
proof -
  have inv: "detecting_process sys p"
    unfolding assms by (rule run_detecting_process) (rule detectors_detecting_process)
  then have all: "\<forall>th \<in> set (threads p). detector sys (Api_level (shared p)) th"
    by (simp add: detecting_process_def list_all_iff)
  have len: "length (threads p) = n"
    unfolding assms by (simp add: length_threads_run detectors_def)
  have "\<forall>th \<in> set (threads p). probes th \<le> 1"
    using all detector_probes by blast
  then have "sum_list (map probes (threads p)) \<le> length (threads p)"
    by (rule sum_list_bounded)
  then have total: "sum_list (map probes (threads p)) \<le> n"
    using len by simp
  have one: "length (filter (exchanged_from not_set) (threads p)) \<le> 1"
    using inv by (simp add: detecting_process_def)
  have each: "list_all (\<lambda>th.
        probes th \<le> 1
        \<and> (probes th = 1 \<longrightarrow>
             (pc th = Get_publish \<or> pc th = Returned) \<and> (Local th = not_set \<or> Local th = detecting))
        \<and> (pc th = Returned \<longrightarrow>
             Api_level (shared p) = detected_level sys
             \<and> (probes th = 1) = (api_level_value (Local th) \<le> api_level_value detecting))
        \<and> (pc th = Get_exchange \<longrightarrow> Local th = not_set \<or> Local th = detecting)
        \<and> (\<forall>spurious.
              probes (snd (thread_step sys spurious (shared p) th)) =
                (if pc th = Get_probe then probes th + 1 else probes th)
              \<and> (pc (snd (thread_step sys spurious (shared p) th)) = Get_probe) =
                  (pc th = Get_exchange \<and> \<not> spurious \<and> Api_level (shared p) = Local th)
              \<and> (api_level_value (Api_level (shared p)) > api_level_value detecting
                   \<and> (pc th = Get_load \<or> pc th = Get_exchange) \<longrightarrow>
                  thread_step sys spurious (shared p) th =
                    (shared p, th\<lparr>Local := Api_level (shared p), pc := Returned\<rparr>))))
      (threads p)"
    unfolding list_all_iff
  proof
    fix th assume "th \<in> set (threads p)"
    then have d: "detector sys (Api_level (shared p)) th" using all by blast
    show "probes th \<le> 1
        \<and> (probes th = 1 \<longrightarrow>
             (pc th = Get_publish \<or> pc th = Returned) \<and> (Local th = not_set \<or> Local th = detecting))
        \<and> (pc th = Returned \<longrightarrow>
             Api_level (shared p) = detected_level sys
             \<and> (probes th = 1) = (api_level_value (Local th) \<le> api_level_value detecting))
        \<and> (pc th = Get_exchange \<longrightarrow> Local th = not_set \<or> Local th = detecting)
        \<and> (\<forall>spurious.
              probes (snd (thread_step sys spurious (shared p) th)) =
                (if pc th = Get_probe then probes th + 1 else probes th)
              \<and> (pc (snd (thread_step sys spurious (shared p) th)) = Get_probe) =
                  (pc th = Get_exchange \<and> \<not> spurious \<and> Api_level (shared p) = Local th)
              \<and> (api_level_value (Api_level (shared p)) > api_level_value detecting
                   \<and> (pc th = Get_load \<or> pc th = Get_exchange) \<longrightarrow>
                  thread_step sys spurious (shared p) th =
                    (shared p, th\<lparr>Local := Api_level (shared p), pc := Returned\<rparr>)))"
      using detector_probes [OF d] detector_facts [OF d] thread_step_probes thread_step_to_probe
        thread_step_finds_terminal [OF d]
      by blast
  qed
  show ?thesis
    using total one detected_level_terminal each by blast
qed

text \<open>
  Three callers, two of which have raced and returned: both have probed, one of them
  exchanged from \<^verbatim>\<open>__not_set\<close>, and the third, which finds the terminal level at its load,
  returns without a probe.
\<close>

theorem detection_race_witness:
  "map pc (threads (run (os_answers 100 True 0 4096) race_schedule (detectors 3))) =
     [Returned, Returned, Get_load]
   \<and> map probes (threads (run (os_answers 100 True 0 4096) race_schedule (detectors 3))) = [1, 1, 0]
   \<and> map (exchanged_from not_set) (threads (run (os_answers 100 True 0 4096) race_schedule (detectors 3))) =
       [True, False, False]
   \<and> Api_level (shared (run (os_answers 100 True 0 4096) race_schedule (detectors 3))) =
       detected_level (os_answers 100 True 0 4096)
   \<and> detected_level (os_answers 100 True 0 4096) = has_wait_on_address
   \<and> thread_step (os_answers 100 True 0 4096) False
        (shared (run (os_answers 100 True 0 4096) race_schedule (detectors 3)))
        (threads (run (os_answers 100 True 0 4096) race_schedule (detectors 3)) ! 2) =
      (shared (run (os_answers 100 True 0 4096) race_schedule (detectors 3)),
       (calls Get_load)\<lparr>Local := has_wait_on_address, pc := Returned\<rparr>)
   \<and> sum_list (map probes (threads (run (os_answers 100 True 0 4096) race_schedule (detectors 3)))) \<le> 3"
proof -
  have d: "detected_level (os_answers 100 True 0 4096) = has_wait_on_address"
    by (simp add: detected_level_def Api_level_publish probe_def os_answers_def)
  show ?thesis
    using detection_race [of "run (os_answers 100 True 0 4096) race_schedule (detectors 3)"
        "os_answers 100 True 0 4096" race_schedule 3]
    by (simp add: race_run_3 d exchanged_from_def calls_def thread_step_def)
qed

text \<open>
  The claim as stated fails for two threads: thread 1 loads \<^verbatim>\<open>__detecting\<close>, which
  thread 0 has stored, exchanges it for \<^verbatim>\<open>__detecting\<close>, and both threads run the probe.
\<close>

theorem detection_race_probes_twice:
  "map probes (threads (run (os_answers 100 True 0 4096) race_schedule (detectors 2))) = [1, 1]
   \<and> map pc (threads (run (os_answers 100 True 0 4096) race_schedule (detectors 2))) = [Returned, Returned]
   \<and> sum_list (map probes (threads (run (os_answers 100 True 0 4096) race_schedule (detectors 2)))) = 2"
  by (simp add: race_run)

text \<open>
  C5. The claim holds of the code but for one store. Thread 0 enters
  \<^verbatim>\<open>_Get_wait_functions\<close> and exchanges \<^verbatim>\<open>__not_set\<close> for \<^verbatim>\<open>__detecting\<close>; thread 1 runs
  \<^verbatim>\<open>_Force_wait_functions_srwlock_only\<close>, which exchanges \<^verbatim>\<open>__detecting\<close> for
  \<^verbatim>\<open>__has_srwlock\<close> and returns: the level is terminal. Thread 0 then runs its probe and
  stores \<^verbatim>\<open>__has_wait_on_address\<close> over it.
\<close>

theorem terminal_level_overwritten:
  "Api_level (shared (run (os_answers 100 True 0 4096)
       [(0, False), (0, False), (1, False), (1, False)] detector_and_forcer)) = has_srwlock
   \<and> map pc (threads (run (os_answers 100 True 0 4096)
       [(0, False), (0, False), (1, False), (1, False)] detector_and_forcer)) = [Get_probe, Returned]
   \<and> Api_level (shared (run (os_answers 100 True 0 4096)
       [(0, False), (0, False), (1, False), (1, False), (0, False), (0, False)] detector_and_forcer)) =
      has_wait_on_address"
  by (simp add: run_def detector_and_forcer_def step_def thread_step_def calls_def
        initial_functions_def compare_exchange_weak_def probe_def publish_def os_answers_def)

subsection \<open>What does hold of a terminal level\<close>

lemma thread_step_in_loop:
  assumes "in_loop th" and "thread_step sys spurious t th = (t', th')"
  shows "in_loop th'"
  using assms
  by (cases "pc th")
     (auto simp: thread_step_def in_loop_def compare_exchange_weak_def Let_def split: if_splits)

lemma thread_step_terminal:
  assumes "in_loop th" and "thread_step sys spurious t th = (t', th')"
    and "api_level_value (Api_level t) > api_level_value detecting"
  shows "api_level_value (Api_level t') > api_level_value detecting"
    and "pc th \<noteq> Get_publish \<Longrightarrow> t' = t"
  using assms
  by (cases "pc th";
      auto simp: thread_step_def in_loop_def compare_exchange_weak_def Let_def Api_level_publish
        split: if_splits)+

lemma step_in_loop:
  assumes "list_all in_loop (threads p)"
  shows "list_all in_loop (threads (step sys s p))"
proof (cases s)
  case (Pair i spurious)
  show ?thesis
  proof (cases "i < length (threads p)")
    case False
    then show ?thesis using assms Pair by (simp add: step_def)
  next
    case True
    obtain t' th' where st: "thread_step sys spurious (shared p) (threads p ! i) = (t', th')"
      by (cases "thread_step sys spurious (shared p) (threads p ! i)")
    have all: "\<forall>th \<in> set (threads p). in_loop th"
      using assms by (simp add: list_all_iff)
    then have "in_loop (threads p ! i)" using True by simp
    then have mine: "in_loop th'" using st by (rule thread_step_in_loop)
    have "in_loop th" if "th \<in> set ((threads p)[i := th'])" for th
    proof -
      from that have "th = th' \<or> th \<in> set (threads p)"
        using set_update_subset_insert [of "threads p" i th'] by auto
      then show ?thesis using mine all by blast
    qed
    then show ?thesis using True Pair st by (simp add: step_def list_all_iff)
  qed
qed

lemma step_terminal:
  assumes "list_all in_loop (threads p)"
    and "api_level_value (Api_level (shared p)) > api_level_value detecting"
  shows "api_level_value (Api_level (shared (step sys s p))) > api_level_value detecting"
proof (cases s)
  case (Pair i spurious)
  show ?thesis
  proof (cases "i < length (threads p)")
    case False
    then show ?thesis using assms Pair by (simp add: step_def)
  next
    case True
    obtain t' th' where st: "thread_step sys spurious (shared p) (threads p ! i) = (t', th')"
      by (cases "thread_step sys spurious (shared p) (threads p ! i)")
    have "in_loop (threads p ! i)"
      using assms(1) True by (simp add: list_all_iff)
    from thread_step_terminal(1) [OF this st assms(2)]
    show ?thesis using True Pair st by (simp add: step_def)
  qed
qed

text \<open>
  Whatever the threads and the schedule, a level above \<^verbatim>\<open>__detecting\<close> never goes back
  to \<^verbatim>\<open>__not_set\<close> or \<^verbatim>\<open>__detecting\<close>.
\<close>

theorem terminal_level_stays_terminal:
  assumes "list_all in_loop (threads p)"
    and "api_level_value (Api_level (shared p)) > api_level_value detecting"
  shows "api_level_value (Api_level (shared (run sys schedule p))) > api_level_value detecting"
  using assms unfolding run_def
proof (induction schedule arbitrary: p)
  case Nil
  then show ?case by simp
next
  case (Cons s schedule)
  have "list_all in_loop (threads (step sys s p))"
    using Cons.prems(1) by (rule step_in_loop)
  moreover have "api_level_value (Api_level (shared (step sys s p))) > api_level_value detecting"
    using Cons.prems by (rule step_terminal)
  ultimately show ?case using Cons.IH by simp
qed

theorem terminal_level_stays_terminal_witness:
  "list_all in_loop (threads (detector_and_forcer\<lparr>shared := initial_functions\<lparr>Api_level := has_srwlock\<rparr>\<rparr>))
   \<and> api_level_value (Api_level (shared
         (detector_and_forcer\<lparr>shared := initial_functions\<lparr>Api_level := has_srwlock\<rparr>\<rparr>)))
       > api_level_value detecting
   \<and> api_level_value (Api_level (shared (run (os_answers 100 True 0 4096)
         [(0, False), (1, False), (0, False), (1, False)]
         (detector_and_forcer\<lparr>shared := initial_functions\<lparr>Api_level := has_srwlock\<rparr>\<rparr>))))
       > api_level_value detecting"
proof -
  have a: "list_all in_loop
      (threads (detector_and_forcer\<lparr>shared := initial_functions\<lparr>Api_level := has_srwlock\<rparr>\<rparr>))"
    by (simp add: detector_and_forcer_def in_loop_def calls_def)
  have b: "api_level_value (Api_level (shared
         (detector_and_forcer\<lparr>shared := initial_functions\<lparr>Api_level := has_srwlock\<rparr>\<rparr>)))
       > api_level_value detecting"
    by simp
  show ?thesis
    using terminal_level_stays_terminal [OF a b, of "os_answers 100 True 0 4096"
        "[(0, False), (1, False), (0, False), (1, False)]"] a b
    by simp
qed

text \<open>
  The one step that changes a terminal level is the store after the probe: every
  other step of every thread leaves a table with a terminal level as it is.
\<close>

theorem terminal_level_changed_by_publish_only:
  assumes "in_loop th"
    and "api_level_value (Api_level t) > api_level_value detecting"
    and "pc th \<noteq> Get_publish"
  shows "fst (thread_step sys spurious t th) = t"
proof -
  obtain t' th' where st: "thread_step sys spurious t th = (t', th')"
    by (cases "thread_step sys spurious t th")
  from thread_step_terminal(2) [OF assms(1) st assms(2) assms(3)] st
  show ?thesis by simp
qed

theorem terminal_level_changed_by_publish_only_witness:
  "in_loop (calls Force_load)
   \<and> api_level_value (Api_level (initial_functions\<lparr>Api_level := has_wait_on_address\<rparr>))
       > api_level_value detecting
   \<and> pc (calls Force_load) \<noteq> Get_publish
   \<and> fst (thread_step (os_answers 100 True 0 0) False
        (initial_functions\<lparr>Api_level := has_wait_on_address\<rparr>) (calls Force_load)) =
      initial_functions\<lparr>Api_level := has_wait_on_address\<rparr>"
proof -
  have a: "in_loop (calls Force_load)"
    by (simp add: in_loop_def calls_def)
  have b: "api_level_value (Api_level (initial_functions\<lparr>Api_level := has_wait_on_address\<rparr>))
       > api_level_value detecting"
    by simp
  have c: "pc (calls Force_load) \<noteq> Get_publish"
    by (simp add: calls_def)
  show ?thesis
    using terminal_level_changed_by_publish_only [OF a b c, of "os_answers 100 True 0 0" False] a b c
    by simp
qed

text \<open>
  One thread alone: called on a table with a terminal level,
  \<^verbatim>\<open>_Force_wait_functions_srwlock_only\<close> and \<^verbatim>\<open>_Get_wait_functions\<close> change nothing, and
  \<^verbatim>\<open>__std_atomic_set_api_level\<close> returns the level there is.
\<close>

theorem terminal_level_alone:
  assumes "api_level_value (Api_level t) > api_level_value detecting"
  shows "Force_wait_functions_srwlock_only sys t = t
    \<and> Get_wait_functions sys t = t
    \<and> std_atomic_set_api_level b sys Requested_api_level t =
        (if ATOMIC_WAIT_ON_ADDRESS_STATICALLY_AVAILABLE b then has_wait_on_address else Api_level t, t)"
  using assms
  by (cases Requested_api_level)
     (simp_all add: std_atomic_set_api_level_def Force_wait_functions_srwlock_only_alone
        Get_wait_functions_alone)

theorem terminal_level_alone_witness:
  "api_level_value (Api_level (initial_functions\<lparr>Api_level := has_wait_on_address\<rparr>))
     > api_level_value detecting
   \<and> std_atomic_set_api_level (dynamic_build False) (os_answers 100 True 0 0) has_srwlock
        (initial_functions\<lparr>Api_level := has_wait_on_address\<rparr>) =
      (has_wait_on_address, initial_functions\<lparr>Api_level := has_wait_on_address\<rparr>)"
proof -
  have a: "api_level_value (Api_level (initial_functions\<lparr>Api_level := has_wait_on_address\<rparr>))
     > api_level_value detecting"
    by simp
  show ?thesis
    using terminal_level_alone [OF a, of "os_answers 100 True 0 0" "dynamic_build False" has_srwlock] a
    by (simp add: dynamic_build_def)
qed

text \<open>
  The two models agree: a thread that steps alone, its exchange not failing
  spuriously, leaves the table that the function called by one thread gives.
\<close>

theorem one_thread_alone:
  "shared (run sys [(0, f), (0, False), (0, g), (0, h)] \<lparr>shared = t, threads = [calls Get_load]\<rparr>) =
     Get_wait_functions sys t
   \<and> shared (run sys [(0, f), (0, False)] \<lparr>shared = t, threads = [calls Force_load]\<rparr>) =
     Force_wait_functions_srwlock_only sys t"
  by (cases "Api_level t")
     (simp_all add: run_def step_def thread_step_def calls_def compare_exchange_weak_def
        Get_wait_functions_alone Force_wait_functions_srwlock_only_alone)

text \<open>The entry of every address is an entry of the table.\<close>

theorem index_in_table: "Atomic_wait_table_entry Storage < Wait_table_size"
proof -
  have "Atomic_wait_table_entry Storage \<le> Wait_table_index_mask"
    by (simp add: Atomic_wait_table_entry_def Let_def word_and_le1)
  moreover have "Wait_table_index_mask < Wait_table_size"
    by (simp add: Wait_table_index_mask_def Wait_table_size_def Wait_table_size_power_def)
  ultimately show ?thesis by simp
qed

subsection \<open>A waiter and a notifier\<close>

text \<open>
  With the level \<open>has_wait_on_address\<close> no call takes the fallback, and the wait
  functions are called; with the level \<open>has_srwlock\<close> every call takes it.
\<close>

lemma native_fallback_taken: "native b w \<Longrightarrow> fallback_taken b sys w = (False, w)"
  by (auto simp: native_def fallback_taken_eq Get_wait_functions_alone)

lemma native_Get_wait_functions:
  "native b w \<Longrightarrow> \<not> ATOMIC_WAIT_ON_ADDRESS_STATICALLY_AVAILABLE b \<Longrightarrow>
     Get_wait_functions sys (Wait_functions w) = Wait_functions w"
  by (auto simp: native_def Get_wait_functions_alone)

lemma native_crtWakeByAddressAll:
  "native b w \<Longrightarrow> crtWakeByAddressAll b sys Address w = Inr (WakeByAddressAll Address w)"
  by (cases "ATOMIC_WAIT_ON_ADDRESS_STATICALLY_AVAILABLE b")
     (auto simp: crtWakeByAddressAll_def native_Get_wait_functions Let_def,
      auto simp: native_def functions_resolved_def)

lemma native_crtWaitOnAddress:
  "native b w \<Longrightarrow> crtWaitOnAddress b sys Address ms w = Inr (WaitOnAddress sys Address ms w)"
  by (cases "ATOMIC_WAIT_ON_ADDRESS_STATICALLY_AVAILABLE b")
     (auto simp: crtWaitOnAddress_def native_Get_wait_functions Let_def,
      auto simp: native_def functions_resolved_def)

lemma native_wait_indirect:
  assumes "native b w"
  shows "std_atomic_wait_indirect b sys Storage Wait_context w =
     (if Wait_phase_and_spin_count Wait_context = Atomic_wait_phase_wait_none then
        Inr (True,
             Wait_context\<lparr>Counter := Entry_Counter (wait_table w (Atomic_wait_table_entry Storage)),
               Wait_phase_and_spin_count := Atomic_wait_phase_wait_counter\<rparr>, w)
      else if Wait_phase_and_spin_count Wait_context = Atomic_wait_phase_wait_counter then
        (if blocking_succeeds sys
         then Inr (True, Wait_context\<lparr>Wait_phase_and_spin_count := Atomic_wait_phase_wait_none\<rparr>,
                w\<lparr>os_calls := os_calls w @
                   [Call_WaitOnAddress (Entry_Counter_address (Atomic_wait_table_entry Storage))
                      (Get_remaining_wait_milliseconds b sys Wait_context)]\<rparr>)
         else and_then (Assume_timeout b sys) (\<lambda>_.
                Inr (False, Wait_context,
                  w\<lparr>os_calls := os_calls w @
                   [Call_WaitOnAddress (Entry_Counter_address (Atomic_wait_table_entry Storage))
                      (Get_remaining_wait_milliseconds b sys Wait_context)]\<rparr>)))
      else Inl Aborted)"
  using assms
  by (simp add: std_atomic_wait_indirect_def native_fallback_taken native_crtWaitOnAddress
        WaitOnAddress_def Let_def)

lemma native_os_calls [simp]: "native b (w\<lparr>os_calls := cs\<rparr>) = native b w"
  by (simp add: native_def)

lemma native_wait_table [simp]: "native b (w\<lparr>wait_table := t\<rparr>) = native b w"
  by (simp add: native_def)

lemma fallback_only_os_calls [simp]: "fallback_only b (w\<lparr>os_calls := cs\<rparr>) = fallback_only b w"
  by (simp add: fallback_only_def)

lemma fallback_only_wait_table [simp]: "fallback_only b (w\<lparr>wait_table := t\<rparr>) = fallback_only b w"
  by (simp add: fallback_only_def)

lemma fallback_only_lock_held [simp]: "fallback_only b (lock_held h i w) = fallback_only b w"
  by (simp add: lock_held_def)

lemma fallback_only_fallback_taken: "fallback_only b w \<Longrightarrow> fallback_taken b sys w = (True, w)"
  by (auto simp: fallback_only_def fallback_taken_eq Get_wait_functions_alone)

lemma remaining_no_deadline:
  "Deadline Wait_context = Atomic_wait_no_timeout b \<Longrightarrow>
     Get_remaining_wait_milliseconds b sys Wait_context = INFINITE"
  by (simp add: Get_remaining_wait_milliseconds_def)

text \<open>The time that remains depends on the deadline and on the tick count only.\<close>

lemma remaining_same [simp]:
  "Get_remaining_wait_milliseconds b sys (Wait_context\<lparr>Counter := c\<rparr>) =
     Get_remaining_wait_milliseconds b sys Wait_context"
  "Get_remaining_wait_milliseconds b sys (Wait_context\<lparr>Wait_phase_and_spin_count := ph\<rparr>) =
     Get_remaining_wait_milliseconds b sys Wait_context"
  "Get_remaining_wait_milliseconds b (sys\<lparr>blocking_succeeds := ok, GetLastError := err\<rparr>) Wait_context =
     Get_remaining_wait_milliseconds b sys Wait_context"
  by (simp_all add: Get_remaining_wait_milliseconds_def Let_def)

lemma phases_distinct:
  "Atomic_wait_phase_wait_counter \<noteq> Atomic_wait_phase_wait_none"
  "Atomic_wait_phase_wait_none \<noteq> Atomic_wait_phase_wait_counter"
  "Atomic_wait_phase_wait_counter \<noteq> Atomic_wait_phase_wait_locked"
  "Atomic_wait_phase_wait_locked \<noteq> Atomic_wait_phase_wait_counter"
  "Atomic_wait_phase_wait_none \<noteq> Atomic_wait_phase_wait_locked"
  "Atomic_wait_phase_wait_locked \<noteq> Atomic_wait_phase_wait_none"
  by (simp_all add: Atomic_wait_phase_wait_none_def Atomic_wait_phase_wait_counter_def
        Atomic_wait_phase_wait_locked_def)

text \<open>The calls of the waiter on the native path.\<close>

lemma native_unwait:
  assumes "native b w"
    and "Wait_phase_and_spin_count Wait_context \<noteq> Atomic_wait_phase_wait_locked"
  shows "std_atomic_unwait_indirect b Storage Wait_context w = Inr (Wait_context, w)"
  using assms by (simp add: std_atomic_unwait_indirect_def Atomic_unwait_fallback_def)

lemma native_waiter_calls:
  assumes "native b (scene_world s)" and "waiter_at s = Waiter_calls"
    and "Get_remaining_wait_milliseconds b sys (waiter_context s) \<noteq> 0"
    and "Wait_phase_and_spin_count (waiter_context s) = Atomic_wait_phase_wait_none
          \<or> Wait_phase_and_spin_count (waiter_context s) = Atomic_wait_phase_wait_counter"
  shows "waiter_step b sys Storage s =
     (if Wait_phase_and_spin_count (waiter_context s) = Atomic_wait_phase_wait_none
      then Inr (s\<lparr>scene_world := scene_world s,
                  waiter_context := (waiter_context s)
                    \<lparr>Counter := Entry_Counter (wait_table (scene_world s) (Atomic_wait_table_entry Storage)),
                     Wait_phase_and_spin_count := Atomic_wait_phase_wait_counter\<rparr>,
                  waiter_at := Waiter_checks\<rparr>)
      else if Entry_Counter (wait_table (scene_world s) (Atomic_wait_table_entry Storage)) =
                Counter (waiter_context s)
      then Inr (s\<lparr>waiter_at := Waiter_sleeps
                    (Call_WaitOnAddress (Entry_Counter_address (Atomic_wait_table_entry Storage))
                       (Get_remaining_wait_milliseconds b sys (waiter_context s))),
                  scene_world := scene_world s\<rparr>)
      else Inr (s\<lparr>scene_world := (scene_world s)\<lparr>os_calls := os_calls (scene_world s) @
                     [Call_WaitOnAddress (Entry_Counter_address (Atomic_wait_table_entry Storage))
                        (Get_remaining_wait_milliseconds b sys (waiter_context s))]\<rparr>,
                  waiter_context := (waiter_context s)
                    \<lparr>Wait_phase_and_spin_count := Atomic_wait_phase_wait_none\<rparr>,
                  waiter_at := Waiter_checks\<rparr>))"
  using assms
  by (auto simp: waiter_step_def native_wait_indirect wait_returned_def phases_distinct)

lemma native_waiter_returns:
  assumes "native b (scene_world s)"
    and "waiter_at s = Waiter_returns (Call_WaitOnAddress a ms) True"
    and "Wait_phase_and_spin_count (waiter_context s) = Atomic_wait_phase_wait_counter"
  shows "waiter_step b sys Storage s =
     Inr (s\<lparr>scene_world := (scene_world s)\<lparr>os_calls := os_calls (scene_world s) @
                     [Call_WaitOnAddress (Entry_Counter_address (Atomic_wait_table_entry Storage))
                        (Get_remaining_wait_milliseconds b sys (waiter_context s))]\<rparr>,
            waiter_context := (waiter_context s)
              \<lparr>Wait_phase_and_spin_count := Atomic_wait_phase_wait_none\<rparr>,
            waiter_at := Waiter_checks\<rparr>)"
  using assms
  by (simp add: waiter_step_def native_wait_indirect wait_returned_def phases_distinct)

lemma native_waiter_checks:
  assumes "native b (scene_world s)" and "waiter_at s = Waiter_checks"
    and "Wait_phase_and_spin_count (waiter_context s) \<noteq> Atomic_wait_phase_wait_locked"
  shows "waiter_step b sys Storage s =
     Inr (if value_changed s
          then s\<lparr>scene_world := scene_world s, waiter_context := waiter_context s,
                 waiter_at := Waiter_leaves\<rparr>
          else s\<lparr>waiter_at := Waiter_calls\<rparr>)"
  using assms
  by (simp add: waiter_step_def native_unwait)

text \<open>
  The notifier's steps are \<^verbatim>\<open>__std_atomic_notify_all_indirect\<close>: taken one after the other,
  with the lock free and no waiter to wake, they leave the process as the function does.
\<close>

lemma notifier_steps_notify_all_indirect:
  assumes "notifier_at s = Notifier_calls" and "waiter_at s = Waiter_leaves"
    and "\<not> Entry_Lock (wait_table (scene_world s) (Atomic_wait_table_entry Storage))"
  shows "map_sum id scene_world
           (scene_run b sys Storage [Notifier_steps, Notifier_steps, Notifier_steps, Notifier_steps] s) =
         std_atomic_notify_all_indirect b sys Storage (scene_world s)"
proof (cases "fst (fallback_taken b sys (scene_world s))")
  case True
  then show ?thesis
    using assms
    by (simp add: scene_step_def notifier_step_def std_atomic_notify_all_indirect_def split_beta
          Atomic_notify_fallback_def AcquireSRWLockExclusive_def ReleaseSRWLockExclusive_def
          WakeAllConditionVariable_def woken_by_def fallback_taken_other Let_def)
next
  case False
  then show ?thesis
    using assms
    by (cases "crtWakeByAddressAll b sys (Entry_Counter_address (Atomic_wait_table_entry Storage))
          ((snd (fallback_taken b sys (scene_world s)))\<lparr>wait_table :=
             (wait_table (snd (fallback_taken b sys (scene_world s))))
               (Atomic_wait_table_entry Storage :=
                  (wait_table (snd (fallback_taken b sys (scene_world s))) (Atomic_wait_table_entry Storage))
                    \<lparr>Entry_Counter := Entry_Counter
                       (wait_table (snd (fallback_taken b sys (scene_world s)))
                          (Atomic_wait_table_entry Storage)) + 1\<rparr>)\<rparr>)")
       (simp_all add: scene_step_def notifier_step_def std_atomic_notify_all_indirect_def split_beta
          woken_by_def Let_def)
qed

text \<open>On the native path every step keeps \<open>no_wakeup_missed\<close>.\<close>

lemma native_scene_facts:
  assumes "native_scene b sys Storage s"
  shows "native b (scene_world s)"
    and "Wait_phase_and_spin_count (waiter_context s) = Atomic_wait_phase_wait_none
          \<or> Wait_phase_and_spin_count (waiter_context s) = Atomic_wait_phase_wait_counter"
    and "Wait_phase_and_spin_count (waiter_context s) \<noteq> Atomic_wait_phase_wait_locked"
  using assms by (auto simp: native_scene_def Let_def phases_distinct)

lemma native_keeps_waiter_checks:
  assumes "no_wakeup_missed b sys Storage s" and "native_scene b sys Storage s"
    and "waiter_at s = Waiter_checks"
  shows "\<exists>s'. waiter_step b sys Storage s = Inr s' \<and> no_wakeup_missed b sys Storage s'
           \<and> Deadline (waiter_context s') = Deadline (waiter_context s)"
  using assms
  unfolding native_waiter_checks [OF native_scene_facts(1) [OF assms(2)] assms(3)
      native_scene_facts(3) [OF assms(2)]]
  by (cases "notifier_at s") (simp_all add: no_wakeup_missed_def native_scene_def Let_def)

lemma native_keeps_waiter_calls:
  assumes "no_wakeup_missed b sys Storage s" and "native_scene b sys Storage s"
    and "waiter_at s = Waiter_calls"
  shows "\<exists>s'. waiter_step b sys Storage s = Inr s' \<and> no_wakeup_missed b sys Storage s'
           \<and> Deadline (waiter_context s') = Deadline (waiter_context s)"
proof -
  have r: "Get_remaining_wait_milliseconds b sys (waiter_context s) \<noteq> 0"
    using assms(1) by (simp add: no_wakeup_missed_def)
  note step = native_waiter_calls [OF native_scene_facts(1) [OF assms(2)] assms(3) r
      native_scene_facts(2) [OF assms(2)]]
  consider (snapshot) "Wait_phase_and_spin_count (waiter_context s) = Atomic_wait_phase_wait_none"
    | (sleeps) "Wait_phase_and_spin_count (waiter_context s) = Atomic_wait_phase_wait_counter"
        "Entry_Counter (wait_table (scene_world s) (Atomic_wait_table_entry Storage)) = Counter (waiter_context s)"
    | (returns) "Wait_phase_and_spin_count (waiter_context s) = Atomic_wait_phase_wait_counter"
        "Entry_Counter (wait_table (scene_world s) (Atomic_wait_table_entry Storage)) \<noteq> Counter (waiter_context s)"
    using native_scene_facts(2) [OF assms(2)] by auto
  then show ?thesis
  proof cases
    case snapshot
    then show ?thesis
      using assms unfolding step
      by (cases "notifier_at s")
         (simp_all add: no_wakeup_missed_def native_scene_def Let_def phases_distinct)
  next
    case sleeps
    then show ?thesis
      using assms unfolding step
      by (cases "notifier_at s")
         (simp_all add: no_wakeup_missed_def native_scene_def Let_def phases_distinct)
  next
    case returns
    then show ?thesis
      using assms unfolding step
      by (cases "notifier_at s")
         (simp_all add: no_wakeup_missed_def native_scene_def Let_def phases_distinct)
  qed
qed

lemma native_keeps_waiter_returns:
  assumes "no_wakeup_missed b sys Storage s" and "native_scene b sys Storage s"
    and "waiter_at s = Waiter_returns c woken"
  shows "\<exists>s'. waiter_step b sys Storage s = Inr s' \<and> no_wakeup_missed b sys Storage s'
           \<and> Deadline (waiter_context s') = Deadline (waiter_context s)"
proof -
  have c: "c = Call_WaitOnAddress (Entry_Counter_address (Atomic_wait_table_entry Storage))
      (Get_remaining_wait_milliseconds b sys (waiter_context s))" and w: woken
    and ph: "Wait_phase_and_spin_count (waiter_context s) = Atomic_wait_phase_wait_counter"
    using assms(2,3) by (simp_all add: native_scene_def Let_def)
  have at: "waiter_at s = Waiter_returns (Call_WaitOnAddress
      (Entry_Counter_address (Atomic_wait_table_entry Storage))
      (Get_remaining_wait_milliseconds b sys (waiter_context s))) True"
    using assms(3) c w by simp
  note step = native_waiter_returns [OF native_scene_facts(1) [OF assms(2)] at ph]
  show ?thesis
    using assms ph unfolding step
    by (cases "notifier_at s")
       (simp_all add: no_wakeup_missed_def native_scene_def Let_def phases_distinct)
qed

lemma native_keeps_waiter:
  assumes "no_wakeup_missed b sys Storage s" and "native_scene b sys Storage s"
  shows "\<exists>s'. waiter_step b sys Storage s = Inr s' \<and> no_wakeup_missed b sys Storage s'
           \<and> Deadline (waiter_context s') = Deadline (waiter_context s)"
proof (cases "waiter_at s")
  case Waiter_checks
  then show ?thesis using native_keeps_waiter_checks [OF assms] by simp
next
  case Waiter_calls
  then show ?thesis using native_keeps_waiter_calls [OF assms] by simp
next
  case (Waiter_sleeps c)
  then show ?thesis using assms(1) by (simp add: waiter_step_def)
next
  case (Waiter_returns c woken)
  then show ?thesis using native_keeps_waiter_returns [OF assms] by simp
next
  case Waiter_leaves
  then show ?thesis using assms(1) by (simp add: waiter_step_def)
qed

lemma plus_one_differs: "(c :: 64 word) + 1 \<noteq> c" "c \<noteq> c + 1"
  by simp_all

lemma native_keeps_notifier:
  assumes "no_wakeup_missed b sys Storage s" and "native_scene b sys Storage s"
  shows "\<exists>s'. notifier_step b sys Storage s = Inr s' \<and> no_wakeup_missed b sys Storage s'
           \<and> Deadline (waiter_context s') = Deadline (waiter_context s)"
proof -
  note n = native_scene_facts(1) [OF assms(2)]
  show ?thesis
  proof (cases "notifier_at s")
    case Notifier_mutates
    then show ?thesis
      using assms
      by (cases "waiter_at s")
         (simp_all add: notifier_step_def no_wakeup_missed_def native_scene_def Let_def)
  next
    case Notifier_calls
    then show ?thesis
      using assms
      by (cases "waiter_at s")
         (simp_all add: notifier_step_def no_wakeup_missed_def native_scene_def Let_def
            native_fallback_taken [OF n])
  next
    case Notifier_increments
    then show ?thesis
      using assms
      by (cases "waiter_at s")
         (simp_all add: notifier_step_def no_wakeup_missed_def native_scene_def Let_def
            plus_one_differs)
  next
    case Notifier_wakes
    then show ?thesis
      using assms
      by (cases "waiter_at s")
         (simp_all add: notifier_step_def no_wakeup_missed_def native_scene_def Let_def
            native_crtWakeByAddressAll [OF n] WakeByAddressAll_def woken_by_def)
  next
    case Notifier_acquires
    then show ?thesis using assms(2) by (simp add: native_scene_def Let_def)
  next
    case Notifier_releases
    then show ?thesis using assms(2) by (simp add: native_scene_def Let_def)
  next
    case Notifier_wakes_all
    then show ?thesis using assms(2) by (simp add: native_scene_def Let_def)
  next
    case Notifier_done
    then show ?thesis using assms(1) by (simp add: notifier_step_def)
  qed
qed

lemma native_keeps_spurious:
  assumes "no_wakeup_missed b sys Storage s" and "native_scene b sys Storage s"
  shows "\<exists>s'. scene_step b sys Storage Spurious_wakeup s = Inr s' \<and> no_wakeup_missed b sys Storage s'
           \<and> Deadline (waiter_context s') = Deadline (waiter_context s)"
  using assms
  by (cases "waiter_at s"; cases "notifier_at s")
     (simp_all add: scene_step_def no_wakeup_missed_def native_scene_def Let_def)

lemma native_keeps_timeout:
  assumes "no_wakeup_missed b sys Storage s" and "native_scene b sys Storage s"
    and "Deadline (waiter_context s) = Atomic_wait_no_timeout b"
  shows "\<exists>s'. scene_step b sys Storage Timeout_fires s = Inr s' \<and> no_wakeup_missed b sys Storage s'
           \<and> Deadline (waiter_context s') = Deadline (waiter_context s)"
  using assms
  by (cases "waiter_at s")
     (auto simp: scene_step_def native_scene_def Let_def remaining_no_deadline)

text \<open>The calls of the waiter on the fallback.\<close>

lemma fallback_wait_indirect:
  assumes "fallback_only b w"
  shows "std_atomic_wait_indirect b sys Storage Wait_context w =
           Atomic_wait_fallback b sys Storage Wait_context w"
  using assms by (simp add: std_atomic_wait_indirect_def fallback_only_fallback_taken)

lemma fallback_unwait:
  assumes "fallback_only b w"
  shows "std_atomic_unwait_indirect b Storage Wait_context w =
     (if Wait_phase_and_spin_count Wait_context = Atomic_wait_phase_wait_locked
      then if Entry_Lock (wait_table w (Atomic_wait_table_entry Storage))
           then Inr (Wait_context\<lparr>Wait_phase_and_spin_count := Atomic_wait_phase_wait_none\<rparr>,
                  w\<lparr>wait_table := (wait_table w)(Atomic_wait_table_entry Storage :=
                        (wait_table w (Atomic_wait_table_entry Storage))\<lparr>Entry_Lock := False\<rparr>),
                    os_calls := os_calls w @
                      [Call_ReleaseSRWLockExclusive (Atomic_wait_table_entry Storage)]\<rparr>)
           else Inl Lock_not_held
      else Inr (Wait_context, w))"
  using assms
  by (simp add: std_atomic_unwait_indirect_def Atomic_unwait_fallback_def fallback_only_def
        ReleaseSRWLockExclusive_def Let_def)

lemma fallback_waiter_checks:
  assumes "fallback_only b (scene_world s)" and "waiter_at s = Waiter_checks"
    and "Wait_phase_and_spin_count (waiter_context s) = Atomic_wait_phase_wait_locked
           \<longrightarrow> Entry_Lock (wait_table (scene_world s) (Atomic_wait_table_entry Storage))"
  shows "waiter_step b sys Storage s =
     Inr (if value_changed s
          then if Wait_phase_and_spin_count (waiter_context s) = Atomic_wait_phase_wait_locked
               then s\<lparr>scene_world := (scene_world s)
                        \<lparr>wait_table := (wait_table (scene_world s))(Atomic_wait_table_entry Storage :=
                           (wait_table (scene_world s) (Atomic_wait_table_entry Storage))
                             \<lparr>Entry_Lock := False\<rparr>),
                         os_calls := os_calls (scene_world s) @
                           [Call_ReleaseSRWLockExclusive (Atomic_wait_table_entry Storage)]\<rparr>,
                      waiter_context := (waiter_context s)
                        \<lparr>Wait_phase_and_spin_count := Atomic_wait_phase_wait_none\<rparr>,
                      waiter_at := Waiter_leaves\<rparr>
               else s\<lparr>scene_world := scene_world s, waiter_context := waiter_context s,
                      waiter_at := Waiter_leaves\<rparr>
          else s\<lparr>waiter_at := Waiter_calls\<rparr>)"
  using assms
  by (simp add: waiter_step_def fallback_unwait)

lemma fallback_waiter_calls:
  assumes "fallback_only b (scene_world s)" and "waiter_at s = Waiter_calls"
    and "Get_remaining_wait_milliseconds b sys (waiter_context s) \<noteq> 0"
    and "Wait_phase_and_spin_count (waiter_context s) = Atomic_wait_phase_wait_none
          \<or> Wait_phase_and_spin_count (waiter_context s) = Atomic_wait_phase_wait_locked
             \<and> Entry_Lock (wait_table (scene_world s) (Atomic_wait_table_entry Storage))"
  shows "waiter_step b sys Storage s =
     (if Wait_phase_and_spin_count (waiter_context s) = Atomic_wait_phase_wait_none
      then if Entry_Lock (wait_table (scene_world s) (Atomic_wait_table_entry Storage))
           then Inr s
           else Inr (s\<lparr>scene_world := (scene_world s)
                        \<lparr>wait_table := (wait_table (scene_world s))(Atomic_wait_table_entry Storage :=
                           (wait_table (scene_world s) (Atomic_wait_table_entry Storage))
                             \<lparr>Entry_Lock := True\<rparr>),
                         os_calls := os_calls (scene_world s) @
                           [Call_AcquireSRWLockExclusive (Atomic_wait_table_entry Storage)]\<rparr>,
                       waiter_context := (waiter_context s)
                         \<lparr>Wait_phase_and_spin_count := Atomic_wait_phase_wait_locked\<rparr>,
                       waiter_at := Waiter_checks\<rparr>)
      else Inr (s\<lparr>waiter_at := Waiter_sleeps
                    (Call_SleepConditionVariableSRW (Atomic_wait_table_entry Storage)
                       (Get_remaining_wait_milliseconds b sys (waiter_context s))),
                  scene_world := lock_held False (Atomic_wait_table_entry Storage) (scene_world s)\<rparr>))"
  using assms
  by (auto simp: waiter_step_def fallback_wait_indirect Atomic_wait_fallback_def
        AcquireSRWLockExclusive_def SleepConditionVariableSRW_def wait_returned_def phases_distinct
        Let_def)

lemma fallback_waiter_returns:
  assumes "fallback_only b (scene_world s)"
    and "waiter_at s = Waiter_returns
           (Call_SleepConditionVariableSRW (Atomic_wait_table_entry Storage) ms) True"
    and "Get_remaining_wait_milliseconds b sys (waiter_context s) \<noteq> 0"
    and "Wait_phase_and_spin_count (waiter_context s) = Atomic_wait_phase_wait_locked"
  shows "waiter_step b sys Storage s =
     (if Entry_Lock (wait_table (scene_world s) (Atomic_wait_table_entry Storage)) then Inr s
      else Inr (s\<lparr>scene_world :=
                    (lock_held True (Atomic_wait_table_entry Storage) (scene_world s))
                      \<lparr>os_calls := os_calls (scene_world s) @
                         [Call_SleepConditionVariableSRW (Atomic_wait_table_entry Storage)
                            (Get_remaining_wait_milliseconds b sys (waiter_context s))]\<rparr>,
                  waiter_context := waiter_context s,
                  waiter_at := Waiter_checks\<rparr>))"
  using assms
  by (simp add: waiter_step_def Atomic_wait_fallback_def SleepConditionVariableSRW_def
        wait_returned_def phases_distinct Let_def lock_held_def)

text \<open>On the fallback every step keeps \<open>no_wakeup_missed\<close>.\<close>

lemma fallback_scene_facts:
  assumes "fallback_scene b sys Storage s"
  shows "fallback_only b (scene_world s)"
    and "Wait_phase_and_spin_count (waiter_context s) = Atomic_wait_phase_wait_none
          \<or> Wait_phase_and_spin_count (waiter_context s) = Atomic_wait_phase_wait_locked"
    and "waiter_at s = Waiter_checks \<or> waiter_at s = Waiter_calls \<Longrightarrow>
           Wait_phase_and_spin_count (waiter_context s) = Atomic_wait_phase_wait_locked \<longrightarrow>
             Entry_Lock (wait_table (scene_world s) (Atomic_wait_table_entry Storage))"
  using assms by (auto simp: fallback_scene_def Let_def)

lemma fallback_keeps_waiter_checks:
  assumes "no_wakeup_missed b sys Storage s" and "fallback_scene b sys Storage s"
    and "waiter_at s = Waiter_checks"
  shows "\<exists>s'. waiter_step b sys Storage s = Inr s' \<and> no_wakeup_missed b sys Storage s'
           \<and> Deadline (waiter_context s') = Deadline (waiter_context s)"
proof -
  have held: "Wait_phase_and_spin_count (waiter_context s) = Atomic_wait_phase_wait_locked
           \<longrightarrow> Entry_Lock (wait_table (scene_world s) (Atomic_wait_table_entry Storage))"
    using fallback_scene_facts(3) [OF assms(2)] assms(3) by simp
  note step = fallback_waiter_checks [OF fallback_scene_facts(1) [OF assms(2)] assms(3) held]
  show ?thesis
    using assms unfolding step
    by (cases "notifier_at s")
       (auto simp: no_wakeup_missed_def fallback_scene_def Let_def phases_distinct)
qed

lemma fallback_keeps_waiter_calls:
  assumes "no_wakeup_missed b sys Storage s" and "fallback_scene b sys Storage s"
    and "waiter_at s = Waiter_calls"
  shows "\<exists>s'. waiter_step b sys Storage s = Inr s' \<and> no_wakeup_missed b sys Storage s'
           \<and> Deadline (waiter_context s') = Deadline (waiter_context s)"
proof -
  have r: "Get_remaining_wait_milliseconds b sys (waiter_context s) \<noteq> 0"
    using assms(1) by (simp add: no_wakeup_missed_def)
  have ph: "Wait_phase_and_spin_count (waiter_context s) = Atomic_wait_phase_wait_none
          \<or> Wait_phase_and_spin_count (waiter_context s) = Atomic_wait_phase_wait_locked
             \<and> Entry_Lock (wait_table (scene_world s) (Atomic_wait_table_entry Storage))"
    using fallback_scene_facts(2,3) [OF assms(2)] assms(3) by auto
  note step = fallback_waiter_calls [OF fallback_scene_facts(1) [OF assms(2)] assms(3) r ph]
  from ph show ?thesis
  proof
    assume "Wait_phase_and_spin_count (waiter_context s) = Atomic_wait_phase_wait_none"
    then show ?thesis
      using assms unfolding step
      by (cases "notifier_at s")
         (auto simp: no_wakeup_missed_def fallback_scene_def Let_def phases_distinct)
  next
    assume "Wait_phase_and_spin_count (waiter_context s) = Atomic_wait_phase_wait_locked
             \<and> Entry_Lock (wait_table (scene_world s) (Atomic_wait_table_entry Storage))"
    then show ?thesis
      using assms unfolding step
      by (cases "notifier_at s")
         (auto simp: no_wakeup_missed_def fallback_scene_def Let_def phases_distinct lock_held_def)
  qed
qed

lemma fallback_keeps_waiter_returns:
  assumes "no_wakeup_missed b sys Storage s" and "fallback_scene b sys Storage s"
    and "waiter_at s = Waiter_returns c woken"
  shows "\<exists>s'. waiter_step b sys Storage s = Inr s' \<and> no_wakeup_missed b sys Storage s'
           \<and> Deadline (waiter_context s') = Deadline (waiter_context s)"
proof -
  have r: "Get_remaining_wait_milliseconds b sys (waiter_context s) \<noteq> 0"
    using assms(1) by (simp add: no_wakeup_missed_def)
  have c: "c = Call_SleepConditionVariableSRW (Atomic_wait_table_entry Storage)
      (Get_remaining_wait_milliseconds b sys (waiter_context s))" and w: woken
    and ph: "Wait_phase_and_spin_count (waiter_context s) = Atomic_wait_phase_wait_locked"
    using assms(2,3) by (simp_all add: fallback_scene_def Let_def)
  have at: "waiter_at s = Waiter_returns (Call_SleepConditionVariableSRW (Atomic_wait_table_entry Storage)
      (Get_remaining_wait_milliseconds b sys (waiter_context s))) True"
    using assms(3) c w by simp
  note step = fallback_waiter_returns [OF fallback_scene_facts(1) [OF assms(2)] at r ph]
  show ?thesis
    using assms ph unfolding step
    by (cases "notifier_at s")
       (auto simp: no_wakeup_missed_def fallback_scene_def Let_def phases_distinct lock_held_def)
qed

lemma fallback_keeps_waiter:
  assumes "no_wakeup_missed b sys Storage s" and "fallback_scene b sys Storage s"
  shows "\<exists>s'. waiter_step b sys Storage s = Inr s' \<and> no_wakeup_missed b sys Storage s'
           \<and> Deadline (waiter_context s') = Deadline (waiter_context s)"
proof (cases "waiter_at s")
  case Waiter_checks
  then show ?thesis using fallback_keeps_waiter_checks [OF assms] by simp
next
  case Waiter_calls
  then show ?thesis using fallback_keeps_waiter_calls [OF assms] by simp
next
  case (Waiter_sleeps c)
  then show ?thesis using assms(1) by (simp add: waiter_step_def)
next
  case (Waiter_returns c woken)
  then show ?thesis using fallback_keeps_waiter_returns [OF assms] by simp
next
  case Waiter_leaves
  then show ?thesis using assms(1) by (simp add: waiter_step_def)
qed

lemma fallback_keeps_notifier:
  assumes "no_wakeup_missed b sys Storage s" and "fallback_scene b sys Storage s"
  shows "\<exists>s'. notifier_step b sys Storage s = Inr s' \<and> no_wakeup_missed b sys Storage s'
           \<and> Deadline (waiter_context s') = Deadline (waiter_context s)"
proof -
  note f = fallback_scene_facts(1) [OF assms(2)]
  show ?thesis
  proof (cases "notifier_at s")
    case Notifier_mutates
    then show ?thesis
      using assms
      by (cases "waiter_at s")
         (auto simp: notifier_step_def no_wakeup_missed_def fallback_scene_def Let_def)
  next
    case Notifier_calls
    then show ?thesis
      using assms
      by (cases "waiter_at s")
         (auto simp: notifier_step_def no_wakeup_missed_def fallback_scene_def Let_def
            fallback_only_fallback_taken [OF f])
  next
    case Notifier_increments
    then show ?thesis using assms(2) by (simp add: fallback_scene_def Let_def)
  next
    case Notifier_wakes
    then show ?thesis using assms(2) by (simp add: fallback_scene_def Let_def)
  next
    case Notifier_acquires
    then show ?thesis
      using assms
      by (cases "waiter_at s")
         (auto simp: notifier_step_def no_wakeup_missed_def fallback_scene_def Let_def
            AcquireSRWLockExclusive_def)
  next
    case Notifier_releases
    then show ?thesis
      using assms
      by (cases "waiter_at s")
         (auto simp: notifier_step_def no_wakeup_missed_def fallback_scene_def Let_def
            ReleaseSRWLockExclusive_def)
  next
    case Notifier_wakes_all
    then show ?thesis
      using assms
      by (cases "waiter_at s")
         (auto simp: notifier_step_def no_wakeup_missed_def fallback_scene_def Let_def
            WakeAllConditionVariable_def woken_by_def)
  next
    case Notifier_done
    then show ?thesis using assms(1) by (simp add: notifier_step_def)
  qed
qed

lemma fallback_keeps_spurious:
  assumes "no_wakeup_missed b sys Storage s" and "fallback_scene b sys Storage s"
  shows "\<exists>s'. scene_step b sys Storage Spurious_wakeup s = Inr s' \<and> no_wakeup_missed b sys Storage s'
           \<and> Deadline (waiter_context s') = Deadline (waiter_context s)"
  using assms
  by (cases "waiter_at s"; cases "notifier_at s")
     (simp_all add: scene_step_def no_wakeup_missed_def fallback_scene_def Let_def)

lemma fallback_keeps_timeout:
  assumes "no_wakeup_missed b sys Storage s" and "fallback_scene b sys Storage s"
    and "Deadline (waiter_context s) = Atomic_wait_no_timeout b"
  shows "\<exists>s'. scene_step b sys Storage Timeout_fires s = Inr s' \<and> no_wakeup_missed b sys Storage s'
           \<and> Deadline (waiter_context s') = Deadline (waiter_context s)"
  using assms
  by (cases "waiter_at s")
     (auto simp: scene_step_def fallback_scene_def Let_def remaining_no_deadline)

lemma scene_step_keeps:
  assumes "no_wakeup_missed b sys Storage s"
    and "e \<noteq> Level_published"
    and "Deadline (waiter_context s) = Atomic_wait_no_timeout b \<or> e \<noteq> Timeout_fires"
  shows "\<exists>s'. scene_step b sys Storage e s = Inr s' \<and> no_wakeup_missed b sys Storage s'
           \<and> Deadline (waiter_context s') = Deadline (waiter_context s)"
proof -
  from assms(1) consider (native) "native_scene b sys Storage s" | (fallback) "fallback_scene b sys Storage s"
    by (auto simp: no_wakeup_missed_def)
  then show ?thesis
  proof cases
    case native
    show ?thesis
    proof (cases e)
      case Waiter_steps
      then show ?thesis using native_keeps_waiter [OF assms(1) native] by (simp add: scene_step_def)
    next
      case Notifier_steps
      then show ?thesis using native_keeps_notifier [OF assms(1) native] by (simp add: scene_step_def)
    next
      case Timeout_fires
      then show ?thesis using native_keeps_timeout [OF assms(1) native] assms(3) by simp
    next
      case Spurious_wakeup
      then show ?thesis using native_keeps_spurious [OF assms(1) native] by simp
    next
      case Level_published
      then show ?thesis using assms(2) by simp
    qed
  next
    case fallback
    show ?thesis
    proof (cases e)
      case Waiter_steps
      then show ?thesis using fallback_keeps_waiter [OF assms(1) fallback] by (simp add: scene_step_def)
    next
      case Notifier_steps
      then show ?thesis using fallback_keeps_notifier [OF assms(1) fallback] by (simp add: scene_step_def)
    next
      case Timeout_fires
      then show ?thesis using fallback_keeps_timeout [OF assms(1) fallback] assms(3) by simp
    next
      case Spurious_wakeup
      then show ?thesis using fallback_keeps_spurious [OF assms(1) fallback] by simp
    next
      case Level_published
      then show ?thesis using assms(2) by simp
    qed
  qed
qed

lemma scene_run_keeps:
  assumes "no_wakeup_missed b sys Storage s"
    and "Level_published \<notin> set es"
    and "Deadline (waiter_context s) = Atomic_wait_no_timeout b \<or> Timeout_fires \<notin> set es"
  shows "\<exists>s'. scene_run b sys Storage es s = Inr s' \<and> no_wakeup_missed b sys Storage s'"
  using assms
proof (induction es arbitrary: s)
  case Nil
  then show ?case by simp
next
  case (Cons e es)
  have "e \<noteq> Level_published"
    and "Deadline (waiter_context s) = Atomic_wait_no_timeout b \<or> e \<noteq> Timeout_fires"
    using Cons.prems(2,3) by auto
  from scene_step_keeps [OF Cons.prems(1) this]
  obtain s1 where s1: "scene_step b sys Storage e s = Inr s1" "no_wakeup_missed b sys Storage s1"
    "Deadline (waiter_context s1) = Deadline (waiter_context s)" by blast
  then have "Level_published \<notin> set es"
    and "Deadline (waiter_context s1) = Atomic_wait_no_timeout b \<or> Timeout_fires \<notin> set es"
    using Cons.prems(2,3) by auto
  then show ?case using Cons.IH [OF s1(2)] s1(1) by simp
qed

text \<open>Once the notifier is done, the waiter leaves within two steps of its own.\<close>

lemma waiter_leaves_after_notify:
  assumes "no_wakeup_missed b sys Storage s" and "notifier_at s = Notifier_done"
  shows "\<exists>s'. scene_run b sys Storage [Waiter_steps, Waiter_steps] s = Inr s'
           \<and> waiter_at s' = Waiter_leaves \<and> \<not> timed_out s'"
proof -
  have c: "value_changed s" and t: "\<not> timed_out s"
    and r: "Get_remaining_wait_milliseconds b sys (waiter_context s) \<noteq> 0"
    using assms by (simp_all add: no_wakeup_missed_def)
  from assms(1) consider (native) "native_scene b sys Storage s" | (fallback) "fallback_scene b sys Storage s"
    by (auto simp: no_wakeup_missed_def)
  then show ?thesis
  proof cases
    case native
    note n = native_scene_facts [OF native]
    show ?thesis
    proof (cases "waiter_at s")
      case Waiter_checks
      then show ?thesis
        using c t n
        by (simp add: scene_step_def native_waiter_checks) (simp add: waiter_step_def)
    next
      case Waiter_calls
      note step = native_waiter_calls [OF n(1) Waiter_calls r n(2)]
      have "Wait_phase_and_spin_count (waiter_context s) = Atomic_wait_phase_wait_counter \<longrightarrow>
          Entry_Counter (wait_table (scene_world s) (Atomic_wait_table_entry Storage)) \<noteq>
            Counter (waiter_context s)"
        using native assms(2) Waiter_calls by (auto simp: native_scene_def Let_def)
      then show ?thesis
        using c t n(1,2)
        by (auto simp: scene_step_def step native_waiter_checks phases_distinct)
    next
      case (Waiter_sleeps x)
      then show ?thesis using native assms(2) by (simp add: native_scene_def Let_def)
    next
      case (Waiter_returns x woken)
      then have x: "x = Call_WaitOnAddress (Entry_Counter_address (Atomic_wait_table_entry Storage))
          (Get_remaining_wait_milliseconds b sys (waiter_context s))" and w: woken
        and ph: "Wait_phase_and_spin_count (waiter_context s) = Atomic_wait_phase_wait_counter"
        using native by (simp_all add: native_scene_def Let_def)
      have at: "waiter_at s = Waiter_returns (Call_WaitOnAddress
          (Entry_Counter_address (Atomic_wait_table_entry Storage))
          (Get_remaining_wait_milliseconds b sys (waiter_context s))) True"
        using Waiter_returns x w by simp
      show ?thesis
        using c t n(1)
        by (simp add: scene_step_def native_waiter_returns [OF n(1) at ph] native_waiter_checks
              phases_distinct)
    next
      case Waiter_leaves
      then show ?thesis using t by (simp add: scene_step_def waiter_step_def)
    qed
  next
    case fallback
    note f = fallback_scene_facts [OF fallback]
    have lock: "Entry_Lock (wait_table (scene_world s) (Atomic_wait_table_entry Storage)) =
        (Wait_phase_and_spin_count (waiter_context s) = Atomic_wait_phase_wait_locked
           \<and> (waiter_at s = Waiter_checks \<or> waiter_at s = Waiter_calls))"
      using fallback assms(2) by (simp add: fallback_scene_def Let_def)
    show ?thesis
    proof (cases "waiter_at s")
      case Waiter_checks
      then have held: "Wait_phase_and_spin_count (waiter_context s) = Atomic_wait_phase_wait_locked
           \<longrightarrow> Entry_Lock (wait_table (scene_world s) (Atomic_wait_table_entry Storage))"
        using lock by simp
      show ?thesis
        using c t
        by (simp add: scene_step_def fallback_waiter_checks [OF f(1) Waiter_checks held])
           (simp add: waiter_step_def)
    next
      case Waiter_calls
      then have ph: "Wait_phase_and_spin_count (waiter_context s) = Atomic_wait_phase_wait_none"
        using fallback assms(2) f(2) by (auto simp: fallback_scene_def Let_def)
      then have free: "\<not> Entry_Lock (wait_table (scene_world s) (Atomic_wait_table_entry Storage))"
        using lock by (simp add: phases_distinct)
      have ph': "Wait_phase_and_spin_count (waiter_context s) = Atomic_wait_phase_wait_none
          \<or> Wait_phase_and_spin_count (waiter_context s) = Atomic_wait_phase_wait_locked
             \<and> Entry_Lock (wait_table (scene_world s) (Atomic_wait_table_entry Storage))"
        using ph by simp
      show ?thesis
        using c t ph free f(1)
        by (simp add: scene_step_def fallback_waiter_calls [OF f(1) Waiter_calls r ph']
              fallback_waiter_checks)
    next
      case (Waiter_sleeps x)
      then show ?thesis using fallback assms(2) by (simp add: fallback_scene_def Let_def)
    next
      case (Waiter_returns x woken)
      then have x: "x = Call_SleepConditionVariableSRW (Atomic_wait_table_entry Storage)
          (Get_remaining_wait_milliseconds b sys (waiter_context s))" and w: woken
        and ph: "Wait_phase_and_spin_count (waiter_context s) = Atomic_wait_phase_wait_locked"
        using fallback by (simp_all add: fallback_scene_def Let_def)
      have at: "waiter_at s = Waiter_returns (Call_SleepConditionVariableSRW
          (Atomic_wait_table_entry Storage)
          (Get_remaining_wait_milliseconds b sys (waiter_context s))) True"
        using Waiter_returns x w by simp
      have free: "\<not> Entry_Lock (wait_table (scene_world s) (Atomic_wait_table_entry Storage))"
        using lock Waiter_returns by simp
      show ?thesis
        using c t ph free f(1)
        by (simp add: scene_step_def fallback_waiter_returns [OF f(1) at r ph]
              fallback_waiter_checks lock_held_def)
    next
      case Waiter_leaves
      then show ?thesis using t by (simp add: scene_step_def waiter_step_def)
    qed
  qed
qed

lemma scene_start_no_wakeup_missed:
  assumes "native b w \<or> fallback_only b w \<and> \<not> Entry_Lock (wait_table w (Atomic_wait_table_entry Storage))"
    and "Wait_phase_and_spin_count Wait_context = Atomic_wait_phase_wait_none"
    and "Get_remaining_wait_milliseconds b sys Wait_context \<noteq> 0"
  shows "no_wakeup_missed b sys Storage (scene_start w Wait_context)"
  using assms
  by (auto simp: no_wakeup_missed_def native_scene_def fallback_scene_def scene_start_def
        phases_distinct)

text \<open>
  With a level that is not stored to during the wait, no wakeup is missed, on the
  native path and on the fallback. The waiter follows the protocol from a context in the
  phase \<^verbatim>\<open>_Atomic_wait_phase_wait_none\<close>, before its deadline; the notifier changes the
  value and calls \<^verbatim>\<open>__std_atomic_notify_all_indirect\<close>; \<open>es\<close> is any interleaving of their
  steps and of spurious wakeups, in which the waiter's sleep does not time out (as it
  cannot when there is no deadline). Then no call aborts or fails, no wait call of the
  waiter has returned false, and once the notifier has returned the waiter is not
  asleep: it has been woken, or it did not go to sleep, and within two steps of its own
  it has seen the changed value and left.
\<close>

theorem wakeup_not_missed:
  assumes "native b w
            \<or> fallback_only b w \<and> \<not> Entry_Lock (wait_table w (Atomic_wait_table_entry Storage))"
    and "Wait_phase_and_spin_count Wait_context = Atomic_wait_phase_wait_none"
    and "Get_remaining_wait_milliseconds b sys Wait_context \<noteq> 0"
    and "Level_published \<notin> set es"
    and "Deadline Wait_context = Atomic_wait_no_timeout b \<or> Timeout_fires \<notin> set es"
  shows "\<exists>s. scene_run b sys Storage es (scene_start w Wait_context) = Inr s
           \<and> \<not> timed_out s
           \<and> (notifier_at s = Notifier_done \<longrightarrow>
                (\<forall>c. waiter_at s \<noteq> Waiter_sleeps c)
                \<and> (\<exists>s'. scene_run b sys Storage [Waiter_steps, Waiter_steps] s = Inr s'
                     \<and> waiter_at s' = Waiter_leaves \<and> \<not> timed_out s'))"
proof -
  have start: "no_wakeup_missed b sys Storage (scene_start w Wait_context)"
    using assms(1-3) by (rule scene_start_no_wakeup_missed)
  have "Deadline (waiter_context (scene_start w Wait_context)) = Atomic_wait_no_timeout b
      \<or> Timeout_fires \<notin> set es"
    using assms(5) by (simp add: scene_start_def)
  from scene_run_keeps [OF start assms(4) this]
  obtain s where s: "scene_run b sys Storage es (scene_start w Wait_context) = Inr s"
    "no_wakeup_missed b sys Storage s" by blast
  have "\<not> timed_out s" using s(2) by (simp add: no_wakeup_missed_def)
  moreover have "\<forall>c. waiter_at s \<noteq> Waiter_sleeps c" if "notifier_at s = Notifier_done"
    using s(2) that by (auto simp: no_wakeup_missed_def native_scene_def fallback_scene_def Let_def)
  ultimately show ?thesis
    using s(1) waiter_leaves_after_notify [OF s(2)] by blast
qed

lemma remaining_50:
  "Get_remaining_wait_milliseconds (dynamic_build d) (os_answers 100 ok err sy)
     \<lparr>Wait_phase_and_spin_count = ph, Deadline = 150, Counter = c\<rparr> = 50"
  using remaining_input(1) [of d ok err sy ph] 
  by (simp add: Get_remaining_wait_milliseconds_def waiting_until_def Let_def)

lemmas scene_defs =
  scene_start_def scene_step_def waiter_step_def notifier_step_def wait_returned_def woken_by_def
  lock_held_def

lemmas call_defs =
  std_atomic_wait_indirect_def std_atomic_unwait_indirect_def Atomic_wait_fallback_def
  Atomic_unwait_fallback_def fallback_taken_eq Get_wait_functions_alone
  AcquireSRWLockExclusive_def ReleaseSRWLockExclusive_def SleepConditionVariableSRW_def
  WakeAllConditionVariable_def crtWaitOnAddress_def crtWakeByAddressAll_def WaitOnAddress_def
  WakeByAddressAll_def Assume_timeout_def

lemma dynamic_build_flags:
  "ATOMIC_WAIT_ON_ADDRESS_STATICALLY_AVAILABLE (dynamic_build d) = False"
  "DEBUG (dynamic_build d) = d"
  by (simp_all add: dynamic_build_def)

lemma constant_update: "(\<lambda>_. c)(i := c) = (\<lambda>_. c)"
  by (rule ext) simp

text \<open>The fallback, step by step.\<close>

lemma fallback_run:
  "scene_run (dynamic_build False) (os_answers 100 True 0 0) 4660
     [Waiter_steps, Waiter_steps, Waiter_steps, Notifier_steps, Notifier_steps, Notifier_steps,
      Waiter_steps, Notifier_steps, Notifier_steps, Notifier_steps]
     (scene_start (initial_world\<lparr>Wait_functions := initial_functions\<lparr>Api_level := has_srwlock\<rparr>\<rparr>)
        (waiting_until 150 Atomic_wait_phase_wait_none)) =
   Inr \<lparr>scene_world = initial_world\<lparr>Wait_functions := initial_functions\<lparr>Api_level := has_srwlock\<rparr>,
           os_calls := [Call_AcquireSRWLockExclusive (Atomic_wait_table_entry 4660),
                        Call_AcquireSRWLockExclusive (Atomic_wait_table_entry 4660),
                        Call_ReleaseSRWLockExclusive (Atomic_wait_table_entry 4660),
                        Call_WakeAllConditionVariable (Atomic_wait_table_entry 4660)]\<rparr>,
        value_changed = True,
        waiter_at = Waiter_returns (Call_SleepConditionVariableSRW (Atomic_wait_table_entry 4660) 50) True,
        waiter_context = waiting_until 150 Atomic_wait_phase_wait_locked,
        timed_out = False, notifier_at = Notifier_done\<rparr>"
  by (simp add: scene_defs call_defs initial_world_def initial_functions_def waiting_until_def
        dynamic_build_flags constant_update remaining_50 phases_distinct Let_def)


text \<open>The native path, step by step.\<close>

lemma native_run:
  "scene_run (dynamic_build False) (os_answers 100 True 0 4096) 4660
     [Waiter_steps, Waiter_steps, Waiter_steps, Waiter_steps,
      Notifier_steps, Notifier_steps, Notifier_steps, Notifier_steps]
     (scene_start
        (initial_world\<lparr>Wait_functions := \<lparr>Pfn_WaitOnAddress = 4096, Pfn_WakeByAddressSingle = 4096,
           Pfn_WakeByAddressAll = 4096, Api_level = has_wait_on_address\<rparr>\<rparr>)
        (waiting_until 150 Atomic_wait_phase_wait_none)) =
   Inr \<lparr>scene_world = initial_world\<lparr>Wait_functions := \<lparr>Pfn_WaitOnAddress = 4096,
             Pfn_WakeByAddressSingle = 4096, Pfn_WakeByAddressAll = 4096, Api_level = has_wait_on_address\<rparr>,
           wait_table := (wait_table initial_world)
             (Atomic_wait_table_entry 4660 := \<lparr>Entry_Counter = 1, Entry_Lock = False\<rparr>),
           os_calls := [Call_WakeByAddressAll (Entry_Counter_address (Atomic_wait_table_entry 4660))]\<rparr>,
        value_changed = True,
        waiter_at = Waiter_returns
          (Call_WaitOnAddress (Entry_Counter_address (Atomic_wait_table_entry 4660)) 50) True,
        waiter_context = waiting_until 150 Atomic_wait_phase_wait_counter,
        timed_out = False, notifier_at = Notifier_done\<rparr>"
  by (simp add: scene_defs call_defs initial_world_def waiting_until_def
        dynamic_build_flags constant_update remaining_50 phases_distinct Let_def)

lemma scene_run_append:
  "scene_run b sys Storage (es @ es') s =
     and_then (scene_run b sys Storage es s) (scene_run b sys Storage es')"
  by (induction es arbitrary: s) (simp_all add: and_then_def split: sum.splits)

text \<open>
  On each path the waiter goes to sleep for the 50 ms that remain and the notifier wakes
  it; within two steps it has left, and no wait call has returned false. On the
  fallback the notifier's acquire waits until the waiter, asleep, has released the lock.
\<close>

theorem wakeup_not_missed_witness:
  "native (dynamic_build False)
     (initial_world\<lparr>Wait_functions := \<lparr>Pfn_WaitOnAddress = 4096, Pfn_WakeByAddressSingle = 4096,
        Pfn_WakeByAddressAll = 4096, Api_level = has_wait_on_address\<rparr>\<rparr>)
   \<and> fallback_only (dynamic_build False)
        (initial_world\<lparr>Wait_functions := initial_functions\<lparr>Api_level := has_srwlock\<rparr>\<rparr>)
   \<and> Get_remaining_wait_milliseconds (dynamic_build False) (os_answers 100 True 0 4096)
        (waiting_until 150 Atomic_wait_phase_wait_none) = 50
   \<and> map_sum id (\<lambda>s. (waiter_at s, timed_out s))
        (scene_run (dynamic_build False) (os_answers 100 True 0 4096) 4660
           ([Waiter_steps, Waiter_steps, Waiter_steps, Waiter_steps,
             Notifier_steps, Notifier_steps, Notifier_steps, Notifier_steps]
            @ [Waiter_steps, Waiter_steps])
           (scene_start
              (initial_world\<lparr>Wait_functions := \<lparr>Pfn_WaitOnAddress = 4096, Pfn_WakeByAddressSingle = 4096,
                 Pfn_WakeByAddressAll = 4096, Api_level = has_wait_on_address\<rparr>\<rparr>)
              (waiting_until 150 Atomic_wait_phase_wait_none))) =
       Inr (Waiter_leaves, False)
   \<and> map_sum id (\<lambda>s. (waiter_at s, timed_out s))
        (scene_run (dynamic_build False) (os_answers 100 True 0 0) 4660
           ([Waiter_steps, Waiter_steps, Waiter_steps, Notifier_steps, Notifier_steps, Notifier_steps,
             Waiter_steps, Notifier_steps, Notifier_steps, Notifier_steps]
            @ [Waiter_steps, Waiter_steps])
           (scene_start (initial_world\<lparr>Wait_functions := initial_functions\<lparr>Api_level := has_srwlock\<rparr>\<rparr>)
              (waiting_until 150 Atomic_wait_phase_wait_none))) =
       Inr (Waiter_leaves, False)"
proof -
  have n: "native (dynamic_build False)
     (initial_world\<lparr>Wait_functions := \<lparr>Pfn_WaitOnAddress = 4096, Pfn_WakeByAddressSingle = 4096,
        Pfn_WakeByAddressAll = 4096, Api_level = has_wait_on_address\<rparr>\<rparr>)"
    by (simp add: native_def functions_resolved_def)
  have f: "fallback_only (dynamic_build False)
        (initial_world\<lparr>Wait_functions := initial_functions\<lparr>Api_level := has_srwlock\<rparr>\<rparr>)"
    "\<not> Entry_Lock (wait_table (initial_world\<lparr>Wait_functions := initial_functions\<lparr>Api_level := has_srwlock\<rparr>\<rparr>)
        (Atomic_wait_table_entry 4660))"
    by (simp_all add: fallback_only_def dynamic_build_flags initial_world_def)
  have p: "Wait_phase_and_spin_count (waiting_until 150 Atomic_wait_phase_wait_none) =
      Atomic_wait_phase_wait_none"
    by (simp add: waiting_until_def)
  show ?thesis
    using wakeup_not_missed [of "dynamic_build False"
        "initial_world\<lparr>Wait_functions := \<lparr>Pfn_WaitOnAddress = 4096, Pfn_WakeByAddressSingle = 4096,
           Pfn_WakeByAddressAll = 4096, Api_level = has_wait_on_address\<rparr>\<rparr>" 4660
        "waiting_until 150 Atomic_wait_phase_wait_none" "os_answers 100 True 0 4096"
        "[Waiter_steps, Waiter_steps, Waiter_steps, Waiter_steps,
          Notifier_steps, Notifier_steps, Notifier_steps, Notifier_steps]"]
      wakeup_not_missed [of "dynamic_build False"
        "initial_world\<lparr>Wait_functions := initial_functions\<lparr>Api_level := has_srwlock\<rparr>\<rparr>" 4660
        "waiting_until 150 Atomic_wait_phase_wait_none" "os_answers 100 True 0 0"
        "[Waiter_steps, Waiter_steps, Waiter_steps, Notifier_steps, Notifier_steps, Notifier_steps,
          Waiter_steps, Notifier_steps, Notifier_steps, Notifier_steps]"]
    unfolding scene_run_append native_run fallback_run
    by (simp add: n f p remaining_input)
       (simp add: scene_defs call_defs initial_world_def initial_functions_def waiting_until_def
          dynamic_build_flags remaining_50 phases_distinct Let_def)
qed

text \<open>
  The level of C5's race: after thread 1's exchange it is \<^verbatim>\<open>__has_srwlock\<close>, and after
  thread 0's store it is \<^verbatim>\<open>__has_wait_on_address\<close>.
\<close>

lemma forced_run:
  "shared (run (os_answers 100 True 0 4096) [(0, False), (0, False), (1, False), (1, False)]
     detector_and_forcer) = initial_functions\<lparr>Api_level := has_srwlock\<rparr>"
  by (simp add: run_def detector_and_forcer_def step_def thread_step_def calls_def
        initial_functions_def compare_exchange_weak_def probe_def publish_def os_answers_def)

lemma overwritten_run:
  "shared (run (os_answers 100 True 0 4096)
     [(0, False), (0, False), (1, False), (1, False), (0, False), (0, False)] detector_and_forcer) =
   \<lparr>Pfn_WaitOnAddress = 4096, Pfn_WakeByAddressSingle = 4096, Pfn_WakeByAddressAll = 4096,
    Api_level = has_wait_on_address\<rparr>"
  by (simp add: run_def detector_and_forcer_def step_def thread_step_def calls_def
        initial_functions_def compare_exchange_weak_def probe_def publish_def os_answers_def)

text \<open>
  C1. A wakeup is missed when the level changes between the waiter's call and the
  notifier's, as it does in the race of C5. Thread 0 is in \<^verbatim>\<open>_Get_wait_functions\<close>, and
  thread 1's \<^verbatim>\<open>_Force_wait_functions_srwlock_only\<close> has set the level to \<^verbatim>\<open>__has_srwlock\<close>.
  The waiter, at tick 100 with the deadline 150, calls \<^verbatim>\<open>__std_atomic_wait_indirect\<close>: the
  fallback is taken, and the first call acquires the lock of the entry and returns
  true. The waiter finds the value unchanged, and its second call sleeps in
  \<^verbatim>\<open>SleepConditionVariableSRW\<close> on the entry's condition variable for the 50 ms that
  remain. Thread 0 now stores \<^verbatim>\<open>__has_wait_on_address\<close> over the level. The notifier changes
  the value and calls \<^verbatim>\<open>__std_atomic_notify_all_indirect\<close>, which takes the native path: its
  one call of the operating system is \<^verbatim>\<open>WakeByAddressAll\<close> on the entry's counter, and that
  does not wake a thread asleep on a condition variable. The waiter's sleep ends at the
  deadline, and its call returns false.
\<close>

theorem notify_misses_sleeping_waiter:
  "Api_level (shared (run (os_answers 100 True 0 4096)
       [(0, False), (0, False), (1, False), (1, False)] detector_and_forcer)) = has_srwlock
   \<and> std_atomic_wait_indirect (dynamic_build False) (os_answers 100 True 0 4096) 4660
       (waiting_until 150 Atomic_wait_phase_wait_none)
       (initial_world\<lparr>Wait_functions := shared (run (os_answers 100 True 0 4096)
          [(0, False), (0, False), (1, False), (1, False)] detector_and_forcer)\<rparr>) =
     Inr (True, waiting_until 150 Atomic_wait_phase_wait_locked,
          (holding_lock 4660)\<lparr>Wait_functions := shared (run (os_answers 100 True 0 4096)
             [(0, False), (0, False), (1, False), (1, False)] detector_and_forcer)\<rparr>)
   \<and> map_sum id (os_calls \<circ> snd \<circ> snd)
       (std_atomic_wait_indirect (dynamic_build False) (os_answers 100 False ERROR_TIMEOUT 4096) 4660
          (waiting_until 150 Atomic_wait_phase_wait_locked)
          ((holding_lock 4660)\<lparr>Wait_functions := shared (run (os_answers 100 True 0 4096)
             [(0, False), (0, False), (1, False), (1, False)] detector_and_forcer)\<rparr>)) =
     Inr [Call_AcquireSRWLockExclusive (Atomic_wait_table_entry 4660),
          Call_SleepConditionVariableSRW (Atomic_wait_table_entry 4660) 50,
          Call_ReleaseSRWLockExclusive (Atomic_wait_table_entry 4660)]
   \<and> Api_level (shared (run (os_answers 100 True 0 4096)
       [(0, False), (0, False), (1, False), (1, False), (0, False), (0, False)] detector_and_forcer)) =
     has_wait_on_address
   \<and> map_sum id os_calls
       (std_atomic_notify_all_indirect (dynamic_build False) (os_answers 100 True 0 4096) 4660
          (initial_world\<lparr>Wait_functions := shared (run (os_answers 100 True 0 4096)
             [(0, False), (0, False), (1, False), (1, False), (0, False), (0, False)]
             detector_and_forcer)\<rparr>)) =
     Inr [Call_WakeByAddressAll (Entry_Counter_address (Atomic_wait_table_entry 4660))]
   \<and> \<not> wakes (Call_WakeByAddressAll (Entry_Counter_address (Atomic_wait_table_entry 4660)))
         (Call_SleepConditionVariableSRW (Atomic_wait_table_entry 4660) 50)
   \<and> map_sum id fst
       (std_atomic_wait_indirect (dynamic_build False) (os_answers 100 False ERROR_TIMEOUT 4096) 4660
          (waiting_until 150 Atomic_wait_phase_wait_locked)
          ((holding_lock 4660)\<lparr>Wait_functions := shared (run (os_answers 100 True 0 4096)
             [(0, False), (0, False), (1, False), (1, False)] detector_and_forcer)\<rparr>)) =
     Inr False"
proof -
  let ?forced = "initial_functions\<lparr>Api_level := has_srwlock\<rparr>"
  have fb: "fallback_taken (dynamic_build False) (os_answers 100 ok err 4096) (w\<lparr>Wait_functions := ?forced\<rparr>) =
      (True, w\<lparr>Wait_functions := ?forced\<rparr>)" for ok err w
    by (simp add: fallback_taken_eq Get_wait_functions_alone dynamic_build_def)
  have held: "Entry_Lock (wait_table (holding_lock 4660) (Atomic_wait_table_entry 4660))"
    by (simp add: holding_lock_def)
  have first: "std_atomic_wait_indirect (dynamic_build False) (os_answers 100 True 0 4096) 4660
       (waiting_until 150 Atomic_wait_phase_wait_none) (initial_world\<lparr>Wait_functions := ?forced\<rparr>) =
     Inr (True, waiting_until 150 Atomic_wait_phase_wait_locked,
          (holding_lock 4660)\<lparr>Wait_functions := ?forced\<rparr>)"
    by (simp add: std_atomic_wait_indirect_def fb Atomic_wait_fallback_def remaining_input Let_def)
       (simp add: waiting_until_def AcquireSRWLockExclusive_def holding_lock_def initial_world_def)
  have second: "std_atomic_wait_indirect (dynamic_build False) (os_answers 100 False ERROR_TIMEOUT 4096) 4660
          (waiting_until 150 Atomic_wait_phase_wait_locked) ((holding_lock 4660)\<lparr>Wait_functions := ?forced\<rparr>) =
     Inr (False, waiting_until 150 Atomic_wait_phase_wait_none,
       (holding_lock 4660)\<lparr>Wait_functions := ?forced,
          wait_table := (wait_table (holding_lock 4660))
              (Atomic_wait_table_entry 4660 := \<lparr>Entry_Counter = 0, Entry_Lock = False\<rparr>),
          os_calls := [Call_AcquireSRWLockExclusive (Atomic_wait_table_entry 4660),
                       Call_SleepConditionVariableSRW (Atomic_wait_table_entry 4660) 50,
                       Call_ReleaseSRWLockExclusive (Atomic_wait_table_entry 4660)]\<rparr>)"
    using held
    by (simp add: std_atomic_wait_indirect_def fb Atomic_wait_fallback_def remaining_input Let_def
          phases_differ SleepConditionVariableSRW_def Assume_timeout_def ReleaseSRWLockExclusive_def)
       (simp add: waiting_until_def holding_lock_def os_answers_def Atomic_wait_phase_wait_locked_def)
  have res: "functions_resolved \<lparr>Pfn_WaitOnAddress = 4096, Pfn_WakeByAddressSingle = 4096,
      Pfn_WakeByAddressAll = 4096, Api_level = has_wait_on_address\<rparr>"
    by (simp add: functions_resolved_def)
  have nat: "\<not> fst (fallback_taken (dynamic_build False) (os_answers 100 True 0 4096)
      (initial_world\<lparr>Wait_functions := \<lparr>Pfn_WaitOnAddress = 4096, Pfn_WakeByAddressSingle = 4096,
      Pfn_WakeByAddressAll = 4096, Api_level = has_wait_on_address\<rparr>\<rparr>))"
    by (simp add: fallback_taken_eq Get_wait_functions_alone dynamic_build_def)
  have notify: "map_sum id os_calls
       (std_atomic_notify_all_indirect (dynamic_build False) (os_answers 100 True 0 4096) 4660
          (initial_world\<lparr>Wait_functions := \<lparr>Pfn_WaitOnAddress = 4096, Pfn_WakeByAddressSingle = 4096,
      Pfn_WakeByAddressAll = 4096, Api_level = has_wait_on_address\<rparr>\<rparr>)) =
     Inr [Call_WakeByAddressAll (Entry_Counter_address (Atomic_wait_table_entry 4660))]"
    using notify_all_indirect_native [OF nat, of 4660] res
    by (simp add: initial_world_def)
  show ?thesis
    unfolding forced_run overwritten_run
    using first second notify by simp
qed

lemma probe_os_answers: "probe (os_answers now ok err sy) = (sy, sy, sy)"
  by (simp add: probe_def os_answers_def)

text \<open>The run in which the wakeup is missed, step by step.\<close>

lemma missed_run:
  "scene_run (dynamic_build False) (os_answers 100 True 0 4096) 4660
     [Waiter_steps, Waiter_steps, Waiter_steps, Waiter_steps, Level_published,
      Notifier_steps, Notifier_steps, Notifier_steps, Notifier_steps]
     (scene_start (initial_world\<lparr>Wait_functions := initial_functions\<lparr>Api_level := has_srwlock\<rparr>\<rparr>)
        (waiting_until 150 Atomic_wait_phase_wait_none)) =
   Inr \<lparr>scene_world = initial_world\<lparr>Wait_functions := \<lparr>Pfn_WaitOnAddress = 4096,
             Pfn_WakeByAddressSingle = 4096, Pfn_WakeByAddressAll = 4096, Api_level = has_wait_on_address\<rparr>,
           wait_table := (wait_table initial_world)
             (Atomic_wait_table_entry 4660 := \<lparr>Entry_Counter = 1, Entry_Lock = False\<rparr>),
           os_calls := [Call_AcquireSRWLockExclusive (Atomic_wait_table_entry 4660),
                        Call_WakeByAddressAll (Entry_Counter_address (Atomic_wait_table_entry 4660))]\<rparr>,
        value_changed = True,
        waiter_at = Waiter_sleeps (Call_SleepConditionVariableSRW (Atomic_wait_table_entry 4660) 50),
        waiter_context = waiting_until 150 Atomic_wait_phase_wait_locked,
        timed_out = False, notifier_at = Notifier_done\<rparr>"
  by (simp add: scene_defs call_defs initial_world_def initial_functions_def waiting_until_def
        dynamic_build_flags constant_update remaining_50 phases_distinct Let_def
        probe_os_answers publish_def)

text \<open>
  The missed wakeup as one run. The level is \<open>has_srwlock\<close>; the waiter acquires the lock,
  checks again and goes to sleep on the condition variable; the level is stored to; the
  notifier changes the value, finds the level \<open>has_wait_on_address\<close>, increments the
  counter and calls \<^verbatim>\<open>WakeByAddressAll\<close>, and is done with the waiter still asleep. The
  waiter's sleep then times out, and its wait call returns false.
\<close>

theorem wakeup_missed_after_level_published:
  "map_sum id (\<lambda>s. (waiter_at s, notifier_at s, value_changed s, os_calls (scene_world s)))
     (scene_run (dynamic_build False) (os_answers 100 True 0 4096) 4660
        [Waiter_steps, Waiter_steps, Waiter_steps, Waiter_steps, Level_published,
         Notifier_steps, Notifier_steps, Notifier_steps, Notifier_steps]
        (scene_start (initial_world\<lparr>Wait_functions := initial_functions\<lparr>Api_level := has_srwlock\<rparr>\<rparr>)
           (waiting_until 150 Atomic_wait_phase_wait_none))) =
   Inr (Waiter_sleeps (Call_SleepConditionVariableSRW (Atomic_wait_table_entry 4660) 50),
        Notifier_done, True,
        [Call_AcquireSRWLockExclusive (Atomic_wait_table_entry 4660),
         Call_WakeByAddressAll (Entry_Counter_address (Atomic_wait_table_entry 4660))])
   \<and> map_sum id (\<lambda>s. (waiter_at s, timed_out s))
       (scene_run (dynamic_build False) (os_answers 100 True 0 4096) 4660
          ([Waiter_steps, Waiter_steps, Waiter_steps, Waiter_steps, Level_published,
            Notifier_steps, Notifier_steps, Notifier_steps, Notifier_steps]
           @ [Timeout_fires, Waiter_steps])
          (scene_start (initial_world\<lparr>Wait_functions := initial_functions\<lparr>Api_level := has_srwlock\<rparr>\<rparr>)
             (waiting_until 150 Atomic_wait_phase_wait_none))) =
     Inr (Waiter_leaves, True)"
  unfolding scene_run_append missed_run
  by (simp add: scene_defs call_defs initial_world_def waiting_until_def INFINITE_def
        dynamic_build_flags remaining_50 phases_distinct Let_def)

end
